theory Spec2Isabelle
  imports Main "HOL-Library.Word"
begin

section \<open>Solidity values, errors and checked arithmetic\<close>

text \<open>
  The repository holds two generations of the contract \<open>SimpleLockup\<close>:
  \<^item> \<open>contracts/SimpleLockup.sol\<close>, the single-lockup shape: one \<open>lockupInfo\<close> and one
    \<open>beneficiary\<close> per deployment, \<open>uint64\<close> times, \<open>Math.mulDiv\<close> in the vesting formula;
  \<^item> the per-address shape: \<open>mapping(address => LockupInfo) lockups\<close>, \<open>uint256\<close> times,
    a plain \<open>*\<close> and \<open>/\<close> in the vesting formula.
  Both are embedded. The definitions of the single-lockup shape carry the names of the
  source; those of the per-address shape carry the same names with the suffix \<open>M\<close>
  (for the mapping).

  Solidity 0.8.24 checks \<open>+\<close>, \<open>-\<close> and \<open>*\<close>: a result outside the type aborts the call
  with \<open>Panic(0x11)\<close>, and a division by zero with \<open>Panic(0x12)\<close>. A revert undoes every
  effect of the call, so a failing call is modelled by its error alone.
\<close>

type_synonym u256 = "256 word"
type_synonym u64 = "64 word"
type_synonym address = "160 word"

datatype panic = ArithmeticOverflow | DivisionByZero

datatype error =
    InvalidAmount
  | InvalidDuration
  | InvalidBeneficiary
  | LockupAlreadyExists
  | NoLockupFound
  | NoTokensAvailable
  | NotRevocable
  | AlreadyRevoked
  | NotBeneficiary
  | InsufficientBalance
  | InsufficientAllowance
  | InsufficientTokensReceived u256 u256
  | NothingToRevoke
  | OwnableUnauthorizedAccount address
  | SafeERC20FailedOperation
  | MathOverflowedMulDiv
  | Panic panic

type_synonym 'a result = "error + 'a"

definition and_then :: "'a result \<Rightarrow> ('a \<Rightarrow> 'b result) \<Rightarrow> 'b result" where
  "and_then r f = (case r of Inl e \<Rightarrow> Inl e | Inr v \<Rightarrow> f v)"

definition checked_add :: "'a::len word \<Rightarrow> 'a word \<Rightarrow> 'a word result" where
  "checked_add a b =
     (if unat a + unat b < 2 ^ LENGTH('a) then Inr (a + b) else Inl (Panic ArithmeticOverflow))"

definition checked_sub :: "'a::len word \<Rightarrow> 'a word \<Rightarrow> 'a word result" where
  "checked_sub a b = (if b \<le> a then Inr (a - b) else Inl (Panic ArithmeticOverflow))"

definition checked_mul :: "'a::len word \<Rightarrow> 'a word \<Rightarrow> 'a word result" where
  "checked_mul a b =
     (if unat a * unat b < 2 ^ LENGTH('a) then Inr (a * b) else Inl (Panic ArithmeticOverflow))"

definition checked_div :: "'a::len word \<Rightarrow> 'a word \<Rightarrow> 'a word result" where
  "checked_div a b = (if b = 0 then Inl (Panic DivisionByZero) else Inr (a div b))"

text \<open>
  Modelled from the spec: \<open>Math.mulDiv\<close> of OpenZeppelin, imported by
  \<open>contracts/SimpleLockup.sol\<close> and not part of the sources at hand. The specification
  asks for "an overflow-safe widened multiply-then-divide" where "the divide must operate
  on the full-width intermediate, not a truncated one": the product is taken in the
  natural numbers, the quotient is rounded down, and the call aborts when the denominator
  is zero or the quotient does not fit 256 bits.
\<close>

definition mulDiv :: "u256 \<Rightarrow> u256 \<Rightarrow> u256 \<Rightarrow> u256 result" where
  "mulDiv x y denominator =
     (if denominator = 0 then Inl (Panic DivisionByZero)
      else if unat x * unat y div unat denominator < 2 ^ 256
        then Inr (of_nat (unat x * unat y div unat denominator))
      else Inl MathOverflowedMulDiv)"

section \<open>The lockup record\<close>

text \<open>
  \<open>struct LockupInfo\<close>. The three time fields are \<open>uint64\<close> in the single-lockup shape and
  \<open>uint256\<close> in the per-address shape, so their type is a parameter of the record.
\<close>

record 't LockupInfo =
  totalAmount :: u256
  releasedAmount :: u256
  startTime :: 't
  cliffDuration :: 't
  vestingDuration :: 't
  revocable :: bool
  revoked :: bool
  vestedAtRevoke :: u256

definition MAX_VESTING_DURATION :: u256 where
  "MAX_VESTING_DURATION = 10 * 365 * 86400"

text \<open>
  What a call leaves outside the contract: the transfers it asks of the token and the
  events it emits, in the order of the source.
\<close>

datatype effect =
    SafeTransferFrom address address u256
  | SafeTransfer address u256
  | TokensLocked address u256 u256 u256 u256 bool
  | TokensReleased address u256
  | LockupRevoked address u256

section \<open>The single-lockup shape (contracts/SimpleLockup.sol)\<close>

text \<open>
  \<open>_vestedAmount()\<close>, which \<open>vestedAmount()\<close> returns as it is. It reads \<open>lockupInfo\<close> and
  \<open>block.timestamp\<close> only. The two sums are \<open>uint64\<close> additions, widened to \<open>uint256\<close> for
  the comparison with the timestamp.
\<close>

definition vestedAmount :: "u64 LockupInfo \<Rightarrow> u256 \<Rightarrow> u256 result" where
  "vestedAmount lockupInfo now =
     (if totalAmount lockupInfo = 0 then Inr 0
      else if revoked lockupInfo then Inr (vestedAtRevoke lockupInfo)
      else and_then (checked_add (startTime lockupInfo) (cliffDuration lockupInfo)) (\<lambda>cliffEnd.
        if now < ucast cliffEnd then Inr 0
        else and_then (checked_add (startTime lockupInfo) (vestingDuration lockupInfo)) (\<lambda>vestingEnd.
          if now \<ge> ucast vestingEnd then Inr (totalAmount lockupInfo)
          else and_then (checked_sub now (ucast (startTime lockupInfo))) (\<lambda>timeFromStart.
            mulDiv (totalAmount lockupInfo) timeFromStart (ucast (vestingDuration lockupInfo))))))"

text \<open>
  \<open>_releasableAmount()\<close>, which \<open>releasableAmount()\<close> returns as it is. The vested amount is
  computed first; the condition \<open>!revoked && block.timestamp >= startTime + vestingDuration\<close>
  evaluates its sum only when the record is not revoked.
\<close>

definition releasableAmount :: "u64 LockupInfo \<Rightarrow> u256 \<Rightarrow> u256 result" where
  "releasableAmount lockupInfo now =
     and_then (vestedAmount lockupInfo now) (\<lambda>vested.
       and_then
         (if revoked lockupInfo then Inr False
          else and_then (checked_add (startTime lockupInfo) (vestingDuration lockupInfo))
                 (\<lambda>vestingEnd. Inr (now \<ge> ucast vestingEnd)))
         (\<lambda>fullyVested.
            if fullyVested then checked_sub (totalAmount lockupInfo) (releasedAmount lockupInfo)
            else checked_sub vested (releasedAmount lockupInfo)))"

definition getVestingProgress :: "u64 LockupInfo \<Rightarrow> u256 \<Rightarrow> u256 result" where
  "getVestingProgress lockupInfo now =
     (if totalAmount lockupInfo = 0 then Inr 0
      else if revoked lockupInfo then Inr 100
      else and_then (checked_add (startTime lockupInfo) (cliffDuration lockupInfo)) (\<lambda>cliffEnd.
        if now < ucast cliffEnd then Inr 0
        else and_then (checked_add (startTime lockupInfo) (vestingDuration lockupInfo)) (\<lambda>vestingEnd.
          if now \<ge> ucast vestingEnd then Inr 100
          else and_then (checked_sub now (ucast (startTime lockupInfo))) (\<lambda>elapsed.
            and_then (checked_mul elapsed 100) (\<lambda>scaled.
              checked_div scaled (ucast (vestingDuration lockupInfo)))))))"

text \<open>
  The storage of the contract: \<open>lockupInfo\<close>, \<open>beneficiary\<close>, the owner kept by \<open>Ownable\<close>
  and the contract's own address (\<open>address(this)\<close>). The token is another contract. A
  call sees it through what it answers: the record \<open>env\<close> holds the caller, the block's
  timestamp and the token's answers during the call, so that no behaviour of the token
  is assumed. A transfer that the token refuses makes \<open>SafeERC20\<close> revert.

  The modifier \<open>nonReentrant\<close> rejects a call that starts while another guarded call of
  the same contract runs. The three operations are the only functions that write
  storage and all three are guarded, so a call-back from the token cannot change the
  storage; the model is of top-level calls, where the guard is open.

  The constructor makes the deployer the owner (\<open>Ownable(msg.sender)\<close>) and leaves the
  rest of the storage at zero; its two checks are on the address of the token alone.
\<close>

record SimpleLockup =
  owner :: address
  address_this :: address
  lockupInfo :: "u64 LockupInfo"
  beneficiary :: address

record env =
  msg_sender :: address
  block_timestamp :: u256
  token_balanceOf_sender :: u256
  token_allowance :: u256
  token_balanceBefore :: u256
  token_balanceAfter :: u256
  token_transfer_ok :: bool

definition constructor :: "address \<Rightarrow> address \<Rightarrow> SimpleLockup" where
  "constructor deployer this =
     \<lparr>owner = deployer, address_this = this,
      lockupInfo = \<lparr>totalAmount = 0, releasedAmount = 0, startTime = 0, cliffDuration = 0,
        vestingDuration = 0, revocable = False, revoked = False, vestedAtRevoke = 0\<rparr>,
      beneficiary = 0\<rparr>"

definition createLockup ::
  "SimpleLockup \<Rightarrow> env \<Rightarrow> address \<Rightarrow> u256 \<Rightarrow> u64 \<Rightarrow> u64 \<Rightarrow> bool \<Rightarrow> (SimpleLockup \<times> effect list) result" where
  "createLockup s e beneficiary' amount cliffDuration' vestingDuration' revocable' =
     (if msg_sender e \<noteq> owner s then Inl (OwnableUnauthorizedAccount (msg_sender e))
      else if beneficiary s \<noteq> 0 then Inl LockupAlreadyExists
      else if amount = 0 then Inl InvalidAmount
      else if vestingDuration' = 0 then Inl InvalidDuration
      else if cliffDuration' \<ge> vestingDuration' then Inl InvalidDuration
      else if ucast vestingDuration' > MAX_VESTING_DURATION then Inl InvalidDuration
      else if beneficiary' = 0 then Inl InvalidBeneficiary
      else if beneficiary' = address_this s then Inl InvalidBeneficiary
      else if token_balanceOf_sender e < amount then Inl InsufficientBalance
      else if token_allowance e < amount then Inl InsufficientAllowance
      else if \<not> token_transfer_ok e then Inl SafeERC20FailedOperation
      else and_then (checked_sub (token_balanceAfter e) (token_balanceBefore e)) (\<lambda>actualReceived.
        if actualReceived < amount then Inl (InsufficientTokensReceived actualReceived amount)
        else Inr (s\<lparr>beneficiary := beneficiary',
                    lockupInfo := \<lparr>totalAmount = amount, releasedAmount = 0,
                      startTime = ucast (block_timestamp e), cliffDuration = cliffDuration',
                      vestingDuration = vestingDuration', revocable = revocable',
                      revoked = False, vestedAtRevoke = 0\<rparr>\<rparr>,
                  [SafeTransferFrom (msg_sender e) (address_this s) amount,
                   TokensLocked beneficiary' amount (ucast (ucast (block_timestamp e) :: u64))
                     (ucast cliffDuration') (ucast vestingDuration') revocable'])))"

definition release :: "SimpleLockup \<Rightarrow> env \<Rightarrow> (SimpleLockup \<times> effect list) result" where
  "release s e =
     (if msg_sender e \<noteq> beneficiary s then Inl NotBeneficiary
      else if totalAmount (lockupInfo s) = 0 then Inl NoLockupFound
      else and_then (releasableAmount (lockupInfo s) (block_timestamp e)) (\<lambda>releasable.
        if releasable = 0 then Inl NoTokensAvailable
        else and_then (checked_add (releasedAmount (lockupInfo s)) releasable) (\<lambda>released'.
          if \<not> token_transfer_ok e then Inl SafeERC20FailedOperation
          else Inr (s\<lparr>lockupInfo := (lockupInfo s)\<lparr>releasedAmount := released'\<rparr>\<rparr>,
                    [SafeTransfer (msg_sender e) releasable,
                     TokensReleased (msg_sender e) releasable]))))"

definition revoke :: "SimpleLockup \<Rightarrow> env \<Rightarrow> (SimpleLockup \<times> effect list) result" where
  "revoke s e =
     (if msg_sender e \<noteq> owner s then Inl (OwnableUnauthorizedAccount (msg_sender e))
      else if totalAmount (lockupInfo s) = 0 then Inl NoLockupFound
      else if revoked (lockupInfo s) then Inl AlreadyRevoked
      else if \<not> revocable (lockupInfo s) then Inl NotRevocable
      else and_then (vestedAmount (lockupInfo s) (block_timestamp e)) (\<lambda>vested0.
        let vested = (if vested0 > totalAmount (lockupInfo s) then totalAmount (lockupInfo s)
                      else vested0)
        in and_then (checked_sub (totalAmount (lockupInfo s)) vested) (\<lambda>refund.
          if refund = 0 then Inl NothingToRevoke
          else if \<not> token_transfer_ok e then Inl SafeERC20FailedOperation
          else Inr (s\<lparr>lockupInfo := (lockupInfo s)\<lparr>revoked := True, vestedAtRevoke := vested\<rparr>\<rparr>,
                    [SafeTransfer (owner s) refund, LockupRevoked (beneficiary s) refund]))))"

text \<open>One call of the contract; a call that reverts leaves the storage as it was.\<close>

datatype call = CreateLockup address u256 u64 u64 bool | Release | Revoke

definition run :: "SimpleLockup \<Rightarrow> env \<Rightarrow> call \<Rightarrow> (SimpleLockup \<times> effect list) result" where
  "run s e c =
     (case c of
        CreateLockup b a cd vd r \<Rightarrow> createLockup s e b a cd vd r
      | Release \<Rightarrow> release s e
      | Revoke \<Rightarrow> revoke s e)"

definition exec :: "SimpleLockup \<Rightarrow> env \<Rightarrow> call \<Rightarrow> SimpleLockup" where
  "exec s e c = (case run s e c of Inl err \<Rightarrow> s | Inr (s', effs) \<Rightarrow> s')"

inductive reachable :: "SimpleLockup \<Rightarrow> bool" where
  deployed: "reachable (constructor deployer this)"
| called: "reachable s \<Longrightarrow> reachable (exec s e c)"

section \<open>The per-address shape\<close>

text \<open>
  \<open>_vestedAmount(beneficiary)\<close> on the record \<open>lockups[beneficiary]\<close>. All fields are
  \<open>uint256\<close>; the product is a checked \<open>uint256\<close> multiplication.
\<close>

definition vestedAmountM :: "u256 LockupInfo \<Rightarrow> u256 \<Rightarrow> u256 result" where
  "vestedAmountM lockup now =
     (if totalAmount lockup = 0 then Inr 0
      else if revoked lockup then Inr (vestedAtRevoke lockup)
      else and_then (checked_add (startTime lockup) (cliffDuration lockup)) (\<lambda>cliffEnd.
        if now < cliffEnd then Inr 0
        else and_then (checked_add (startTime lockup) (vestingDuration lockup)) (\<lambda>vestingEnd.
          if now \<ge> vestingEnd then Inr (totalAmount lockup)
          else and_then (checked_sub now (startTime lockup)) (\<lambda>timeFromStart.
            and_then (checked_mul (totalAmount lockup) timeFromStart) (\<lambda>product.
              checked_div product (vestingDuration lockup))))))"

definition releasableAmountM :: "u256 LockupInfo \<Rightarrow> u256 \<Rightarrow> u256 result" where
  "releasableAmountM lockup now =
     and_then (vestedAmountM lockup now) (\<lambda>vested.
       and_then
         (if revoked lockup then Inr False
          else and_then (checked_add (startTime lockup) (vestingDuration lockup))
                 (\<lambda>vestingEnd. Inr (now \<ge> vestingEnd)))
         (\<lambda>fullyVested.
            if fullyVested then checked_sub (totalAmount lockup) (releasedAmount lockup)
            else checked_sub vested (releasedAmount lockup)))"

definition getVestingProgressM :: "u256 LockupInfo \<Rightarrow> u256 \<Rightarrow> u256 result" where
  "getVestingProgressM lockup now =
     (if totalAmount lockup = 0 then Inr 0
      else if revoked lockup then Inr 100
      else and_then (checked_add (startTime lockup) (cliffDuration lockup)) (\<lambda>cliffEnd.
        if now < cliffEnd then Inr 0
        else and_then (checked_add (startTime lockup) (vestingDuration lockup)) (\<lambda>vestingEnd.
          if now \<ge> vestingEnd then Inr 100
          else and_then (checked_sub now (startTime lockup)) (\<lambda>elapsed.
            and_then (checked_mul elapsed 100) (\<lambda>scaled.
              checked_div scaled (vestingDuration lockup))))))"

text \<open>
  A Solidity mapping answers every key; a key never written answers the record of zeros.
\<close>

record SimpleLockupM =
  ownerM :: address
  address_thisM :: address
  lockups :: "address \<Rightarrow> u256 LockupInfo"

definition constructorM :: "address \<Rightarrow> address \<Rightarrow> SimpleLockupM" where
  "constructorM deployer this =
     \<lparr>ownerM = deployer, address_thisM = this,
      lockups = (\<lambda>k. \<lparr>totalAmount = 0, releasedAmount = 0, startTime = 0, cliffDuration = 0,
        vestingDuration = 0, revocable = False, revoked = False, vestedAtRevoke = 0\<rparr>)\<rparr>"

definition createLockupM ::
  "SimpleLockupM \<Rightarrow> env \<Rightarrow> address \<Rightarrow> u256 \<Rightarrow> u256 \<Rightarrow> u256 \<Rightarrow> bool \<Rightarrow> (SimpleLockupM \<times> effect list) result" where
  "createLockupM s e beneficiary' amount cliffDuration' vestingDuration' revocable' =
     (if msg_sender e \<noteq> ownerM s then Inl (OwnableUnauthorizedAccount (msg_sender e))
      else if beneficiary' = 0 then Inl InvalidBeneficiary
      else if beneficiary' = address_thisM s then Inl InvalidBeneficiary
      else if amount = 0 then Inl InvalidAmount
      else if vestingDuration' = 0 then Inl InvalidDuration
      else if vestingDuration' > MAX_VESTING_DURATION then Inl InvalidDuration
      else if cliffDuration' > vestingDuration' then Inl InvalidDuration
      else if totalAmount (lockups s beneficiary') \<noteq> 0 then Inl LockupAlreadyExists
      else if \<not> token_transfer_ok e then Inl SafeERC20FailedOperation
      else Inr (s\<lparr>lockups := (lockups s)(beneficiary' :=
                    \<lparr>totalAmount = amount, releasedAmount = 0,
                     startTime = block_timestamp e, cliffDuration = cliffDuration',
                     vestingDuration = vestingDuration', revocable = revocable',
                     revoked = False, vestedAtRevoke = 0\<rparr>)\<rparr>,
                [SafeTransferFrom (msg_sender e) (address_thisM s) amount,
                 TokensLocked beneficiary' amount (block_timestamp e) cliffDuration'
                   vestingDuration' revocable']))"

definition releaseM :: "SimpleLockupM \<Rightarrow> env \<Rightarrow> (SimpleLockupM \<times> effect list) result" where
  "releaseM s e =
     (let lockup = lockups s (msg_sender e) in
      if totalAmount lockup = 0 then Inl NoLockupFound
      else and_then (releasableAmountM lockup (block_timestamp e)) (\<lambda>releasable.
        if releasable = 0 then Inl NoTokensAvailable
        else and_then (checked_add (releasedAmount lockup) releasable) (\<lambda>released'.
          if \<not> token_transfer_ok e then Inl SafeERC20FailedOperation
          else Inr (s\<lparr>lockups := (lockups s)(msg_sender e := lockup\<lparr>releasedAmount := released'\<rparr>)\<rparr>,
                    [SafeTransfer (msg_sender e) releasable,
                     TokensReleased (msg_sender e) releasable]))))"

text \<open>
  \<open>revoke(beneficiary)\<close> of the per-address shape: a refund of zero is no error here; the
  transfer alone is skipped (\<open>if (refund > 0)\<close>).
\<close>

definition revokeM :: "SimpleLockupM \<Rightarrow> env \<Rightarrow> address \<Rightarrow> (SimpleLockupM \<times> effect list) result" where
  "revokeM s e beneficiary' =
     (let lockup = lockups s beneficiary' in
      if msg_sender e \<noteq> ownerM s then Inl (OwnableUnauthorizedAccount (msg_sender e))
      else if totalAmount lockup = 0 then Inl NoLockupFound
      else if revoked lockup then Inl AlreadyRevoked
      else if \<not> revocable lockup then Inl NotRevocable
      else and_then (vestedAmountM lockup (block_timestamp e)) (\<lambda>vested0.
        let vested = (if vested0 > totalAmount lockup then totalAmount lockup else vested0)
        in and_then (checked_sub (totalAmount lockup) vested) (\<lambda>refund.
          if refund > 0 \<and> \<not> token_transfer_ok e then Inl SafeERC20FailedOperation
          else Inr (s\<lparr>lockups := (lockups s)(beneficiary' :=
                        lockup\<lparr>revoked := True, vestedAtRevoke := vested\<rparr>)\<rparr>,
                    (if refund > 0 then [SafeTransfer (ownerM s) refund] else [])
                      @ [LockupRevoked beneficiary' refund]))))"

datatype callM = CreateLockupM address u256 u256 u256 bool | ReleaseM | RevokeM address

definition runM :: "SimpleLockupM \<Rightarrow> env \<Rightarrow> callM \<Rightarrow> (SimpleLockupM \<times> effect list) result" where
  "runM s e c =
     (case c of
        CreateLockupM b a cd vd r \<Rightarrow> createLockupM s e b a cd vd r
      | ReleaseM \<Rightarrow> releaseM s e
      | RevokeM b \<Rightarrow> revokeM s e b)"

definition execM :: "SimpleLockupM \<Rightarrow> env \<Rightarrow> callM \<Rightarrow> SimpleLockupM" where
  "execM s e c = (case runM s e c of Inl err \<Rightarrow> s | Inr (s', effs) \<Rightarrow> s')"

inductive reachableM :: "SimpleLockupM \<Rightarrow> bool" where
  deployedM: "reachableM (constructorM deployer this)"
| calledM: "reachableM s \<Longrightarrow> reachableM (execM s e c)"

section \<open>The schedule in natural numbers\<close>

text \<open>
  The specification computes with unbounded numbers. \<open>spec_vestedAmount\<close> follows its
  words for \<open>vestedAmount(record, now)\<close>, and \<open>spec_vestingProgress\<close> those for
  \<open>getVestingProgress\<close>, on the fields of a record read as natural numbers.
  \<open>time_fits\<close> says that the end of the cliff and the end of the schedule are
  representable in the type of the time fields, which is what the two checked sums of
  the code need.
\<close>

definition spec_vestedAmount :: "('t::len) word LockupInfo \<Rightarrow> nat \<Rightarrow> nat" where
  "spec_vestedAmount r now =
     (if unat (totalAmount r) = 0 then 0
      else if revoked r then unat (vestedAtRevoke r)
      else if now < unat (startTime r) + unat (cliffDuration r) then 0
      else if now \<ge> unat (startTime r) + unat (vestingDuration r) then unat (totalAmount r)
      else unat (totalAmount r) * (now - unat (startTime r)) div unat (vestingDuration r))"

definition spec_vestingProgress :: "('t::len) word LockupInfo \<Rightarrow> nat \<Rightarrow> nat" where
  "spec_vestingProgress r now =
     (if unat (totalAmount r) = 0 then 0
      else if revoked r then 100
      else if now < unat (startTime r) + unat (cliffDuration r) then 0
      else if now \<ge> unat (startTime r) + unat (vestingDuration r) then 100
      else (now - unat (startTime r)) * 100 div unat (vestingDuration r))"

definition time_fits :: "('t::len) word LockupInfo \<Rightarrow> bool" where
  "time_fits r \<longleftrightarrow>
     unat (startTime r) + unat (cliffDuration r) < 2 ^ LENGTH('t) \<and>
     unat (startTime r) + unat (vestingDuration r) < 2 ^ LENGTH('t)"

section \<open>Invariants of the storage\<close>

text \<open>
  What every record in a storage built by calls satisfies: the released amount and the
  snapshot taken at revocation never exceed the total, and only an existing record is
  revoked. In the single-lockup shape the record exists exactly when \<open>beneficiary\<close> is
  set, and an existing record has a cliff strictly shorter than its schedule.
\<close>

definition lockup_inv :: "'t LockupInfo \<Rightarrow> bool" where
  "lockup_inv r \<longleftrightarrow>
     releasedAmount r \<le> totalAmount r \<and> vestedAtRevoke r \<le> totalAmount r \<and>
     (revoked r \<longrightarrow> totalAmount r \<noteq> 0)"

definition storage_inv :: "SimpleLockup \<Rightarrow> bool" where
  "storage_inv s \<longleftrightarrow>
     lockup_inv (lockupInfo s) \<and>
     (beneficiary s = 0 \<longleftrightarrow> totalAmount (lockupInfo s) = 0) \<and>
     (totalAmount (lockupInfo s) \<noteq> 0 \<longrightarrow>
        cliffDuration (lockupInfo s) < vestingDuration (lockupInfo s))"

definition storage_invM :: "SimpleLockupM \<Rightarrow> bool" where
  "storage_invM m \<longleftrightarrow> (\<forall>k. lockup_inv (lockups m k))"

text \<open>
  A token that answers a call as a plain ERC-20 token with enough balance and allowance
  does: used to run the operations on concrete inputs.
\<close>

definition plain_env :: "address \<Rightarrow> u256 \<Rightarrow> u256 \<Rightarrow> env" where
  "plain_env sender now amount =
     \<lparr>msg_sender = sender, block_timestamp = now, token_balanceOf_sender = amount,
      token_allowance = amount, token_balanceBefore = 0, token_balanceAfter = amount,
      token_transfer_ok = True\<rparr>"

text \<open>
  Two storages used as concrete inputs: the owner \<open>1\<close> deploys the contract at address \<open>2\<close>
  and, at time \<open>1700000000\<close>, locks \<open>1000\<close> units for the beneficiary \<open>3\<close> with a cliff of
  \<open>100\<close> seconds and a schedule of \<open>1000\<close> seconds, revocable.
\<close>

definition example_storage :: SimpleLockup where
  "example_storage =
     exec (constructor 1 2) (plain_env 1 1700000000 1000) (CreateLockup 3 1000 100 1000 True)"

definition example_storageM :: SimpleLockupM where
  "example_storageM =
     execM (constructorM 1 2) (plain_env 1 1700000000 1000) (CreateLockupM 3 1000 100 1000 True)"

text \<open>The same storages after the owner has revoked the lockup at half of the schedule.\<close>

definition example_revoked :: SimpleLockup where
  "example_revoked = exec example_storage (plain_env 1 1700000500 0) Revoke"

definition example_revokedM :: SimpleLockupM where
  "example_revokedM = execM example_storageM (plain_env 1 1700000500 0) (RevokeM 3)"

text \<open>The example storages after the beneficiary has released at a third of the schedule.\<close>

definition example_released :: SimpleLockup where
  "example_released = exec example_storage (plain_env 3 1700000333 0) Release"

definition example_releasedM :: SimpleLockupM where
  "example_releasedM = execM example_storageM (plain_env 3 1700000333 0) ReleaseM"

section \<open>Checked arithmetic in natural numbers\<close>

lemma and_then_Inl [simp]: "and_then (Inl e) f = Inl e"
  by (simp add: and_then_def)

lemma and_then_Inr [simp]: "and_then (Inr v) f = f v"
  by (simp add: and_then_def)

lemma unat_widen [simp]: "unat (ucast (x :: u64) :: u256) = unat x"
proof -
  have "unat x < 2 ^ 64" using unsigned_less [of x] by simp
  then have "unat x < (2::nat) ^ 256"
    by (rule less_le_trans) simp
  then show ?thesis
    by (simp add: unsigned_ucast_eq take_bit_nat_eq_self)
qed

lemma checked_add_fits:
  fixes a b :: "'a::len word"
  assumes "unat a + unat b < 2 ^ LENGTH('a)"
  shows "checked_add a b = Inr (a + b)" and "unat (a + b) = unat a + unat b"
  using assms by (simp_all add: checked_add_def unat_add_lem [THEN iffD1])

lemma checked_add_overflow:
  fixes a b :: "'a::len word"
  assumes "\<not> unat a + unat b < 2 ^ LENGTH('a)"
  shows "checked_add a b = Inl (Panic ArithmeticOverflow)"
  using assms by (simp add: checked_add_def)

lemma checked_sub_fits:
  fixes a b :: "'a::len word"
  assumes "unat b \<le> unat a"
  shows "checked_sub a b = Inr (a - b)" and "unat (a - b) = unat a - unat b"
  using assms by (simp_all add: checked_sub_def word_le_nat_alt unat_sub)

lemma checked_mul_fits:
  fixes a b :: "'a::len word"
  assumes "unat a * unat b < 2 ^ LENGTH('a)"
  shows "checked_mul a b = Inr (a * b)" and "unat (a * b) = unat a * unat b"
  using assms by (simp_all add: checked_mul_def unat_mult_lem [THEN iffD1])

lemma mulDiv_fits:
  assumes "denominator \<noteq> 0" and "unat x * unat y div unat denominator < 2 ^ 256"
  shows "\<exists>v. mulDiv x y denominator = Inr v \<and> unat v = unat x * unat y div unat denominator"
  using assms by (simp add: mulDiv_def unat_of_nat)

lemma mul_div_le:
  fixes t e d :: nat
  assumes "e \<le> d"
  shows "t * e div d \<le> t"
proof (cases "d = 0")
  case True
  then show ?thesis by simp
next
  case False
  have "t * e \<le> t * d" using assms by simp
  then have "t * e div d \<le> t * d div d" by (rule div_le_mono)
  with False show ?thesis by simp
qed

section \<open>The vested amount of the single-lockup shape\<close>

lemma vestedAmount_refines:
  assumes "time_fits r"
  shows "\<exists>v. vestedAmount r now = Inr v \<and> unat v = spec_vestedAmount r (unat now)"
proof -
  let ?S = "unat (startTime r)" and ?C = "unat (cliffDuration r)"
  let ?V = "unat (vestingDuration r)" and ?N = "unat now" and ?T = "unat (totalAmount r)"
  from assms have c: "?S + ?C < 2 ^ LENGTH(64)" and v: "?S + ?V < 2 ^ LENGTH(64)"
    by (simp_all add: time_fits_def)
  note ce = checked_add_fits [OF c] and ve = checked_add_fits [OF v]
  consider (none) "totalAmount r = 0"
    | (rev) "totalAmount r \<noteq> 0" "revoked r"
    | (cliff) "totalAmount r \<noteq> 0" "\<not> revoked r" "?N < ?S + ?C"
    | (full) "totalAmount r \<noteq> 0" "\<not> revoked r" "\<not> ?N < ?S + ?C" "?S + ?V \<le> ?N"
    | (grad) "totalAmount r \<noteq> 0" "\<not> revoked r" "\<not> ?N < ?S + ?C" "\<not> ?S + ?V \<le> ?N"
    by blast
  then show ?thesis
  proof cases
    case none
    then show ?thesis by (simp add: vestedAmount_def spec_vestedAmount_def)
  next
    case rev
    then show ?thesis by (simp add: vestedAmount_def spec_vestedAmount_def unat_eq_0)
  next
    case cliff
    then show ?thesis
      by (simp add: vestedAmount_def spec_vestedAmount_def unat_eq_0 ce word_less_nat_alt)
  next
    case full
    then show ?thesis
      by (simp add: vestedAmount_def spec_vestedAmount_def unat_eq_0 ce ve
          word_less_nat_alt word_le_nat_alt)
  next
    case grad
    then have sn: "?S \<le> ?N" and lt: "?N - ?S < ?V" by simp_all
    have sub: "checked_sub now (ucast (startTime r)) = Inr (now - ucast (startTime r))"
      and usub: "unat (now - ucast (startTime r)) = ?N - ?S"
      using checked_sub_fits [of "ucast (startTime r) :: u256" now] sn by simp_all
    from lt have vpos: "0 < ?V" by simp
    then have vne: "(ucast (vestingDuration r) :: u256) \<noteq> 0"
      by (metis unat_widen unat_eq_0 less_numeral_extra(3))
    have "?T * (?N - ?S) div ?V \<le> ?T"
      using lt by (intro mul_div_le) simp
    also have "?T < 2 ^ 256" using unsigned_less [of "totalAmount r"] by simp
    finally have small: "?T * (?N - ?S) div ?V < 2 ^ 256" .
    obtain w where w: "mulDiv (totalAmount r) (now - ucast (startTime r)) (ucast (vestingDuration r)) = Inr w"
      "unat w = ?T * (?N - ?S) div ?V"
      using mulDiv_fits [OF vne, of "totalAmount r" "now - ucast (startTime r)"] small usub
      by auto
    from grad w show ?thesis
      by (simp add: vestedAmount_def spec_vestedAmount_def unat_eq_0 ce ve sub
          word_less_nat_alt word_le_nat_alt)
  qed
qed

lemma vestedAmount_returns:
  assumes "vestedAmount r now = Inr v"
  shows "time_fits r \<or> totalAmount r = 0 \<or> revoked r \<or>
         (unat (startTime r) + unat (cliffDuration r) < 2 ^ 64 \<and>
          unat now < unat (startTime r) + unat (cliffDuration r))"
proof (rule ccontr)
  assume n: "\<not> ?thesis"
  let ?S = "unat (startTime r)" and ?C = "unat (cliffDuration r)"
  let ?V = "unat (vestingDuration r)" and ?N = "unat now"
  show False
  proof (cases "?S + ?C < 2 ^ LENGTH(64)")
    case False
    with n assms show False
      by (simp add: vestedAmount_def checked_add_overflow)
  next
    case True
    note ce = checked_add_fits [OF True]
    from n True have nv: "\<not> ?S + ?V < 2 ^ LENGTH(64)" and nn: "\<not> ?N < ?S + ?C"
      by (simp_all add: time_fits_def)
    from n assms nn show False
      by (simp add: vestedAmount_def ce checked_add_overflow [OF nv] word_less_nat_alt)
  qed
qed

lemma vestedAmount_sound:
  assumes "vestedAmount r now = Inr v"
  shows "unat v = spec_vestedAmount r (unat now)"
proof (cases "time_fits r")
  case True
  from vestedAmount_refines [OF True, of now] assms show ?thesis by auto
next
  case False
  with vestedAmount_returns [OF assms]
  consider "totalAmount r = 0" | "totalAmount r \<noteq> 0" "revoked r"
    | "totalAmount r \<noteq> 0" "\<not> revoked r" "unat (startTime r) + unat (cliffDuration r) < 2 ^ LENGTH(64)"
      "unat now < unat (startTime r) + unat (cliffDuration r)"
    by auto
  then show ?thesis
  proof cases
    case 1
    with assms show ?thesis by (auto simp: vestedAmount_def spec_vestedAmount_def)
  next
    case 2
    with assms show ?thesis by (auto simp: vestedAmount_def spec_vestedAmount_def unat_eq_0)
  next
    case 3
    with assms show ?thesis
      by (auto simp: vestedAmount_def spec_vestedAmount_def unat_eq_0
          checked_add_fits [OF 3(3)] word_less_nat_alt)
  qed
qed

lemma spec_vestedAmount_le_total:
  assumes "revoked r \<longrightarrow> unat (vestedAtRevoke r) \<le> unat (totalAmount r)"
  shows "spec_vestedAmount r n \<le> unat (totalAmount r)"
proof -
  have "unat (totalAmount r) * (n - unat (startTime r)) div unat (vestingDuration r)
        \<le> unat (totalAmount r)"
    if "n < unat (startTime r) + unat (vestingDuration r)"
    using that by (intro mul_div_le) simp
  with assms show ?thesis
    by (auto simp: spec_vestedAmount_def)
qed

lemma spec_vestedAmount_mono:
  assumes "\<not> revoked r" and "n1 \<le> n2"
  shows "spec_vestedAmount r n1 \<le> spec_vestedAmount r n2"
proof -
  let ?S = "unat (startTime r)" and ?C = "unat (cliffDuration r)"
  let ?V = "unat (vestingDuration r)" and ?T = "unat (totalAmount r)"
  have le: "spec_vestedAmount r n1 \<le> ?T"
    using assms(1) by (intro spec_vestedAmount_le_total) simp
  consider (zero) "?T = 0 \<or> n1 < ?S + ?C" | (full) "?T \<noteq> 0" "?S + ?C \<le> n1" "?S + ?V \<le> n2"
    | (grad) "?T \<noteq> 0" "?S + ?C \<le> n1" "n2 < ?S + ?V"
    by linarith
  then show ?thesis
  proof cases
    case zero
    then show ?thesis using assms by (auto simp: spec_vestedAmount_def)
  next
    case full
    with assms have "spec_vestedAmount r n2 = ?T"
      by (auto simp: spec_vestedAmount_def)
    with le show ?thesis by simp
  next
    case grad
    have "?T * (n1 - ?S) div ?V \<le> ?T * (n2 - ?S) div ?V"
      using assms(2) by (intro div_le_mono mult_le_mono2 diff_le_mono)
    with grad assms show ?thesis
      by (auto simp: spec_vestedAmount_def)
  qed
qed

section \<open>The vested amount of the per-address shape\<close>

lemma vestedAmountM_refines:
  assumes "time_fits r"
    and "unat now < unat (startTime r) + unat (vestingDuration r) \<longrightarrow>
         unat (totalAmount r) * (unat now - unat (startTime r)) < 2 ^ 256"
  shows "\<exists>v. vestedAmountM r now = Inr v \<and> unat v = spec_vestedAmount r (unat now)"
proof -
  let ?S = "unat (startTime r)" and ?C = "unat (cliffDuration r)"
  let ?V = "unat (vestingDuration r)" and ?N = "unat now" and ?T = "unat (totalAmount r)"
  from assms have c: "?S + ?C < 2 ^ LENGTH(256)" and v: "?S + ?V < 2 ^ LENGTH(256)"
    by (simp_all add: time_fits_def)
  note ce = checked_add_fits [OF c] and ve = checked_add_fits [OF v]
  consider (none) "totalAmount r = 0"
    | (rev) "totalAmount r \<noteq> 0" "revoked r"
    | (cliff) "totalAmount r \<noteq> 0" "\<not> revoked r" "?N < ?S + ?C"
    | (full) "totalAmount r \<noteq> 0" "\<not> revoked r" "\<not> ?N < ?S + ?C" "?S + ?V \<le> ?N"
    | (grad) "totalAmount r \<noteq> 0" "\<not> revoked r" "\<not> ?N < ?S + ?C" "\<not> ?S + ?V \<le> ?N"
    by blast
  then show ?thesis
  proof cases
    case none
    then show ?thesis by (simp add: vestedAmountM_def spec_vestedAmount_def)
  next
    case rev
    then show ?thesis by (simp add: vestedAmountM_def spec_vestedAmount_def unat_eq_0)
  next
    case cliff
    then show ?thesis
      by (simp add: vestedAmountM_def spec_vestedAmount_def unat_eq_0 ce word_less_nat_alt)
  next
    case full
    then show ?thesis
      by (simp add: vestedAmountM_def spec_vestedAmount_def unat_eq_0 ce ve
          word_less_nat_alt word_le_nat_alt)
  next
    case grad
    then have sn: "?S \<le> ?N" and lt: "?N - ?S < ?V" by simp_all
    have sub: "checked_sub now (startTime r) = Inr (now - startTime r)"
      and usub: "unat (now - startTime r) = ?N - ?S"
      using checked_sub_fits [of "startTime r" now] sn by simp_all
    from lt have vne: "vestingDuration r \<noteq> 0"
      by (metis unat_eq_0 not_less_zero)
    from grad assms(2) have "?T * unat (now - startTime r) < 2 ^ LENGTH(256)"
      by (simp add: usub)
    note mul = checked_mul_fits [OF this]
    from grad show ?thesis
      by (simp add: vestedAmountM_def spec_vestedAmount_def unat_eq_0 ce ve sub mul vne
          checked_div_def unat_div usub word_less_nat_alt word_le_nat_alt)
  qed
qed

lemma vestedAmountM_overflow:
  assumes "totalAmount r \<noteq> 0" and "\<not> revoked r" and "time_fits r"
    and "unat (startTime r) + unat (cliffDuration r) \<le> unat now"
    and "unat now < unat (startTime r) + unat (vestingDuration r)"
    and "2 ^ 256 \<le> unat (totalAmount r) * (unat now - unat (startTime r))"
  shows "vestedAmountM r now = Inl (Panic ArithmeticOverflow)"
proof -
  let ?S = "unat (startTime r)" and ?C = "unat (cliffDuration r)"
  let ?V = "unat (vestingDuration r)" and ?N = "unat now" and ?T = "unat (totalAmount r)"
  from assms have c: "?S + ?C < 2 ^ LENGTH(256)" and v: "?S + ?V < 2 ^ LENGTH(256)"
    by (simp_all add: time_fits_def)
  note ce = checked_add_fits [OF c] and ve = checked_add_fits [OF v]
  from assms have sn: "?S \<le> ?N" by simp
  have sub: "checked_sub now (startTime r) = Inr (now - startTime r)"
    and usub: "unat (now - startTime r) = ?N - ?S"
    using checked_sub_fits [of "startTime r" now] sn by simp_all
  from assms(6) have "checked_mul (totalAmount r) (now - startTime r) = Inl (Panic ArithmeticOverflow)"
    by (simp add: checked_mul_def usub)
  with assms show ?thesis
    by (simp add: vestedAmountM_def ce ve sub word_less_nat_alt word_le_nat_alt)
qed

lemma vestedAmountM_returns:
  assumes "vestedAmountM r now = Inr v"
  shows "totalAmount r = 0 \<or> revoked r \<or>
         (unat (startTime r) + unat (cliffDuration r) < 2 ^ 256 \<and>
          unat now < unat (startTime r) + unat (cliffDuration r)) \<or>
         (time_fits r \<and>
          (unat now < unat (startTime r) + unat (vestingDuration r) \<longrightarrow>
           unat (totalAmount r) * (unat now - unat (startTime r)) < 2 ^ 256))"
proof (rule ccontr)
  assume n: "\<not> ?thesis"
  let ?S = "unat (startTime r)" and ?C = "unat (cliffDuration r)"
  let ?V = "unat (vestingDuration r)" and ?N = "unat now" and ?T = "unat (totalAmount r)"
  show False
  proof (cases "?S + ?C < 2 ^ LENGTH(256)")
    case False
    with n assms show False
      by (simp add: vestedAmountM_def checked_add_overflow)
  next
    case c: True
    note ce = checked_add_fits [OF c]
    from n c have nn: "\<not> ?N < ?S + ?C" by simp
    show False
    proof (cases "?S + ?V < 2 ^ LENGTH(256)")
      case False
      from n assms nn show False
        by (simp add: vestedAmountM_def ce checked_add_overflow [OF False] word_less_nat_alt)
    next
      case v: True
      from c v have tf: "time_fits r" by (simp add: time_fits_def)
      with n have lt: "?N < ?S + ?V" and big: "2 ^ 256 \<le> ?T * (?N - ?S)"
        by simp_all
      from n nn have "vestedAmountM r now = Inl (Panic ArithmeticOverflow)"
        by (intro vestedAmountM_overflow tf lt big) simp_all
      with assms show False by simp
    qed
  qed
qed

lemma vestedAmountM_sound:
  assumes "vestedAmountM r now = Inr v"
  shows "unat v = spec_vestedAmount r (unat now)"
proof -
  from vestedAmountM_returns [OF assms]
  consider "totalAmount r = 0" | "totalAmount r \<noteq> 0" "revoked r"
    | "totalAmount r \<noteq> 0" "\<not> revoked r" "unat (startTime r) + unat (cliffDuration r) < 2 ^ LENGTH(256)"
      "unat now < unat (startTime r) + unat (cliffDuration r)"
    | "time_fits r" "unat now < unat (startTime r) + unat (vestingDuration r) \<longrightarrow>
           unat (totalAmount r) * (unat now - unat (startTime r)) < 2 ^ 256"
    by auto
  then show ?thesis
  proof cases
    case 1
    with assms show ?thesis by (auto simp: vestedAmountM_def spec_vestedAmount_def)
  next
    case 2
    with assms show ?thesis by (auto simp: vestedAmountM_def spec_vestedAmount_def unat_eq_0)
  next
    case 3
    with assms show ?thesis
      by (auto simp: vestedAmountM_def spec_vestedAmount_def unat_eq_0
          checked_add_fits [OF 3(3)] word_less_nat_alt)
  next
    case 4
    from vestedAmountM_refines [OF 4, of ] assms show ?thesis by auto
  qed
qed

section \<open>What a successful call has done\<close>

lemma and_then_eq_Inr: "and_then r f = Inr y \<longleftrightarrow> (\<exists>v. r = Inr v \<and> f v = Inr y)"
  by (cases r) simp_all

lemma checked_add_eq_Inr:
  "checked_add a b = Inr c \<longleftrightarrow> unat a + unat b < 2 ^ LENGTH('a) \<and> c = a + b"
  for a b :: "'a::len word"
  by (auto simp: checked_add_def)

lemma checked_sub_eq_Inr: "checked_sub a b = Inr c \<longleftrightarrow> b \<le> a \<and> c = a - b"
  by (auto simp: checked_sub_def)

lemma releasableAmount_Inr:
  assumes "releasableAmount l now = Inr x"
  shows "\<exists>target. releasedAmount l \<le> target \<and> x = target - releasedAmount l \<and>
           (if \<not> revoked l \<and> unat (startTime l) + unat (vestingDuration l) \<le> unat now
            then target = totalAmount l else vestedAmount l now = Inr target)"
proof (cases "revoked l")
  case True
  with assms show ?thesis
    by (auto simp: releasableAmount_def and_then_eq_Inr checked_sub_eq_Inr)
next
  case False
  with assms obtain vested where v: "vestedAmount l now = Inr vested"
    and f: "unat (startTime l) + unat (vestingDuration l) < 2 ^ LENGTH(64)"
    and r: "(if now \<ge> ucast (startTime l + vestingDuration l)
              then checked_sub (totalAmount l) (releasedAmount l)
              else checked_sub vested (releasedAmount l)) = Inr x"
    by (auto simp: releasableAmount_def and_then_eq_Inr checked_add_eq_Inr)
  have "now \<ge> ucast (startTime l + vestingDuration l) \<longleftrightarrow>
        unat (startTime l) + unat (vestingDuration l) \<le> unat now"
    by (simp add: word_le_nat_alt checked_add_fits(2) [OF f])
  with False v r show ?thesis
    by (auto simp: checked_sub_eq_Inr split: if_splits)
qed

lemma release_Inr:
  assumes "release s e = Inr (s', effs)"
  shows "\<exists>target. s' = s\<lparr>lockupInfo := (lockupInfo s)\<lparr>releasedAmount := target\<rparr>\<rparr> \<and>
           releasedAmount (lockupInfo s) \<le> target \<and>
           (if \<not> revoked (lockupInfo s) \<and>
               unat (startTime (lockupInfo s)) + unat (vestingDuration (lockupInfo s))
                 \<le> unat (block_timestamp e)
            then target = totalAmount (lockupInfo s)
            else vestedAmount (lockupInfo s) (block_timestamp e) = Inr target)"
proof -
  from assms obtain x where x: "releasableAmount (lockupInfo s) (block_timestamp e) = Inr x"
    and s': "s' = s\<lparr>lockupInfo := (lockupInfo s)\<lparr>releasedAmount := releasedAmount (lockupInfo s) + x\<rparr>\<rparr>"
    by (auto simp: release_def and_then_eq_Inr checked_add_eq_Inr split: if_splits)
  from releasableAmount_Inr [OF x] s' show ?thesis
    by auto
qed

lemma releasableAmountM_Inr:
  assumes "releasableAmountM l now = Inr x"
  shows "\<exists>target. releasedAmount l \<le> target \<and> x = target - releasedAmount l \<and>
           (if \<not> revoked l \<and> unat (startTime l) + unat (vestingDuration l) \<le> unat now
            then target = totalAmount l else vestedAmountM l now = Inr target)"
proof (cases "revoked l")
  case True
  with assms show ?thesis
    by (auto simp: releasableAmountM_def and_then_eq_Inr checked_sub_eq_Inr)
next
  case False
  with assms obtain vested where v: "vestedAmountM l now = Inr vested"
    and f: "unat (startTime l) + unat (vestingDuration l) < 2 ^ LENGTH(256)"
    and r: "(if now \<ge> startTime l + vestingDuration l
              then checked_sub (totalAmount l) (releasedAmount l)
              else checked_sub vested (releasedAmount l)) = Inr x"
    by (auto simp: releasableAmountM_def and_then_eq_Inr checked_add_eq_Inr)
  have "now \<ge> startTime l + vestingDuration l \<longleftrightarrow>
        unat (startTime l) + unat (vestingDuration l) \<le> unat now"
    by (simp add: word_le_nat_alt checked_add_fits(2) [OF f])
  with False v r show ?thesis
    by (auto simp: checked_sub_eq_Inr split: if_splits)
qed

lemma releaseM_Inr:
  assumes "releaseM s e = Inr (s', effs)"
  shows "\<exists>target. s' = s\<lparr>lockups := (lockups s)(msg_sender e :=
                    (lockups s (msg_sender e))\<lparr>releasedAmount := target\<rparr>)\<rparr> \<and>
           releasedAmount (lockups s (msg_sender e)) \<le> target \<and>
           (if \<not> revoked (lockups s (msg_sender e)) \<and>
               unat (startTime (lockups s (msg_sender e)))
                 + unat (vestingDuration (lockups s (msg_sender e))) \<le> unat (block_timestamp e)
            then target = totalAmount (lockups s (msg_sender e))
            else vestedAmountM (lockups s (msg_sender e)) (block_timestamp e) = Inr target)"
proof -
  let ?l = "lockups s (msg_sender e)"
  from assms obtain x where x: "releasableAmountM ?l (block_timestamp e) = Inr x"
    and s': "s' = s\<lparr>lockups := (lockups s)(msg_sender e :=
                ?l\<lparr>releasedAmount := releasedAmount ?l + x\<rparr>)\<rparr>"
    by (auto simp: releaseM_def Let_def and_then_eq_Inr checked_add_eq_Inr split: if_splits)
  from releasableAmountM_Inr [OF x] s' show ?thesis
    by auto
qed

lemma vestedAmount_le_total:
  assumes "vestedAmount l now = Inr v" and "revoked l \<longrightarrow> vestedAtRevoke l \<le> totalAmount l"
  shows "v \<le> totalAmount l"
  using spec_vestedAmount_le_total [of l "unat now"] vestedAmount_sound [OF assms(1)] assms(2)
  by (simp add: word_le_nat_alt)

lemma vestedAmountM_le_total:
  assumes "vestedAmountM l now = Inr v" and "revoked l \<longrightarrow> vestedAtRevoke l \<le> totalAmount l"
  shows "v \<le> totalAmount l"
  using spec_vestedAmount_le_total [of l "unat now"] vestedAmountM_sound [OF assms(1)] assms(2)
  by (simp add: word_le_nat_alt)

lemma revoke_Inr:
  assumes "revoke s e = Inr (s', effs)"
  shows "\<exists>vested. vestedAmount (lockupInfo s) (block_timestamp e) = Inr vested \<and>
           vested < totalAmount (lockupInfo s) \<and>
           s' = s\<lparr>lockupInfo := (lockupInfo s)\<lparr>revoked := True, vestedAtRevoke := vested\<rparr>\<rparr> \<and>
           effs = [SafeTransfer (owner s) (totalAmount (lockupInfo s) - vested),
                   LockupRevoked (beneficiary s) (totalAmount (lockupInfo s) - vested)] \<and>
           msg_sender e = owner s \<and> totalAmount (lockupInfo s) \<noteq> 0 \<and>
           \<not> revoked (lockupInfo s) \<and> revocable (lockupInfo s) \<and> token_transfer_ok e"
proof -
  let ?l = "lockupInfo s"
  from assms have pre: "msg_sender e = owner s" "totalAmount ?l \<noteq> 0" "\<not> revoked ?l" "revocable ?l"
    by (auto simp: revoke_def split: if_splits)
  with assms obtain v0 where v0: "vestedAmount ?l (block_timestamp e) = Inr v0"
    by (auto simp: revoke_def and_then_eq_Inr)
  from vestedAmount_le_total [OF v0] pre have le: "v0 \<le> totalAmount ?l" by simp
  then have nlt: "\<not> totalAmount ?l < v0" by simp
  from assms pre v0 nlt have ne: "totalAmount ?l - v0 \<noteq> 0" and ok: "token_transfer_ok e"
    and s': "s' = s\<lparr>lockupInfo := ?l\<lparr>revoked := True, vestedAtRevoke := v0\<rparr>\<rparr>"
    and effs: "effs = [SafeTransfer (owner s) (totalAmount ?l - v0),
                   LockupRevoked (beneficiary s) (totalAmount ?l - v0)]"
    by (auto simp: revoke_def Let_def checked_sub_def split: if_splits)
  from ne le have "v0 < totalAmount ?l" by (cases "v0 = totalAmount ?l") simp_all
  with v0 s' effs pre ok show ?thesis by blast
qed

lemma revokeM_Inr:
  assumes "revokeM s e b = Inr (s', effs)"
  shows "\<exists>vested. vestedAmountM (lockups s b) (block_timestamp e) = Inr vested \<and>
           vested \<le> totalAmount (lockups s b) \<and>
           s' = s\<lparr>lockups := (lockups s)(b :=
                  (lockups s b)\<lparr>revoked := True, vestedAtRevoke := vested\<rparr>)\<rparr> \<and>
           msg_sender e = ownerM s \<and> totalAmount (lockups s b) \<noteq> 0 \<and>
           \<not> revoked (lockups s b) \<and> revocable (lockups s b)"
proof -
  let ?l = "lockups s b"
  from assms have pre: "msg_sender e = ownerM s" "totalAmount ?l \<noteq> 0" "\<not> revoked ?l" "revocable ?l"
    by (auto simp: revokeM_def Let_def split: if_splits)
  with assms obtain v0 where v0: "vestedAmountM ?l (block_timestamp e) = Inr v0"
    by (auto simp: revokeM_def Let_def and_then_eq_Inr)
  from vestedAmountM_le_total [OF v0] pre have le: "v0 \<le> totalAmount ?l" by simp
  then have nlt: "\<not> totalAmount ?l < v0" by simp
  from assms pre v0 nlt
  have s': "s' = s\<lparr>lockups := (lockups s)(b := ?l\<lparr>revoked := True, vestedAtRevoke := v0\<rparr>)\<rparr>"
    by (auto simp: revokeM_def Let_def checked_sub_def split: if_splits)
  with v0 le pre show ?thesis by blast
qed

lemma createLockup_Inr:
  assumes "createLockup s e b amount cd vd rv = Inr (s', effs)"
  shows "s' = s\<lparr>beneficiary := b,
               lockupInfo := \<lparr>totalAmount = amount, releasedAmount = 0,
                 startTime = ucast (block_timestamp e), cliffDuration = cd,
                 vestingDuration = vd, revocable = rv, revoked = False, vestedAtRevoke = 0\<rparr>\<rparr> \<and>
         msg_sender e = owner s \<and> beneficiary s = 0 \<and> amount \<noteq> 0 \<and> cd < vd \<and>
         ucast vd \<le> MAX_VESTING_DURATION \<and> b \<noteq> 0 \<and> b \<noteq> address_this s"
  using assms
  by (auto simp: createLockup_def and_then_eq_Inr split: if_splits)

lemma createLockupM_Inr:
  assumes "createLockupM s e b amount cd vd rv = Inr (s', effs)"
  shows "s' = s\<lparr>lockups := (lockups s)(b :=
               \<lparr>totalAmount = amount, releasedAmount = 0,
                 startTime = block_timestamp e, cliffDuration = cd,
                 vestingDuration = vd, revocable = rv, revoked = False, vestedAtRevoke = 0\<rparr>)\<rparr> \<and>
         msg_sender e = ownerM s \<and> totalAmount (lockups s b) = 0 \<and> amount \<noteq> 0 \<and> cd \<le> vd \<and>
         vd \<le> MAX_VESTING_DURATION \<and> vd \<noteq> 0 \<and> b \<noteq> 0 \<and> b \<noteq> address_thisM s"
  using assms
  by (auto simp: createLockupM_def split: if_splits)

section \<open>The invariants hold in every reachable storage\<close>

lemma exec_cases:
  obtains (reverted) "exec s e c = s"
    | (created) b a cd vd rv effs where "c = CreateLockup b a cd vd rv"
        "createLockup s e b a cd vd rv = Inr (exec s e c, effs)"
    | (released) effs where "c = Release" "release s e = Inr (exec s e c, effs)"
    | (revoked) effs where "c = Revoke" "revoke s e = Inr (exec s e c, effs)"
proof (cases "run s e c")
  case (Inl err)
  then have "exec s e c = s" by (simp add: exec_def)
  then show ?thesis by (rule reverted)
next
  case (Inr p)
  obtain s' effs where p: "p = (s', effs)" by (cases p)
  with Inr have x: "exec s e c = s'" by (simp add: exec_def)
  show ?thesis
  proof (cases c)
    case (CreateLockup b a cd vd rv)
    with Inr p x show ?thesis by (intro created) (simp_all add: run_def)
  next
    case Release
    with Inr p x show ?thesis by (intro released) (simp_all add: run_def)
  next
    case Revoke
    with Inr p x show ?thesis by (intro revoked) (simp_all add: run_def)
  qed
qed

lemma execM_cases:
  obtains (reverted) "execM s e c = s"
    | (created) b a cd vd rv effs where "c = CreateLockupM b a cd vd rv"
        "createLockupM s e b a cd vd rv = Inr (execM s e c, effs)"
    | (released) effs where "c = ReleaseM" "releaseM s e = Inr (execM s e c, effs)"
    | (revoked) b effs where "c = RevokeM b" "revokeM s e b = Inr (execM s e c, effs)"
proof (cases "runM s e c")
  case (Inl err)
  then have "execM s e c = s" by (simp add: execM_def)
  then show ?thesis by (rule reverted)
next
  case (Inr p)
  obtain s' effs where p: "p = (s', effs)" by (cases p)
  with Inr have x: "execM s e c = s'" by (simp add: execM_def)
  show ?thesis
  proof (cases c)
    case (CreateLockupM b a cd vd rv)
    with Inr p x show ?thesis by (intro created) (simp_all add: runM_def)
  next
    case ReleaseM
    with Inr p x show ?thesis by (intro released) (simp_all add: runM_def)
  next
    case (RevokeM b)
    with Inr p x show ?thesis by (intro revoked) (simp_all add: runM_def)
  qed
qed

lemma storage_inv_exec:
  assumes "storage_inv s"
  shows "storage_inv (exec s e c)"
proof (cases rule: exec_cases [where s = s and e = e and c = c])
  case reverted
  with assms show ?thesis by simp
next
  case (created b a cd vd rv effs)
  from createLockup_Inr [OF created(2)] show ?thesis
    by (simp add: storage_inv_def lockup_inv_def)
next
  case (released effs)
  from release_Inr [OF released(2)] obtain target
    where s': "exec s e c = s\<lparr>lockupInfo := (lockupInfo s)\<lparr>releasedAmount := target\<rparr>\<rparr>"
      and t: "target = totalAmount (lockupInfo s)
              \<or> vestedAmount (lockupInfo s) (block_timestamp e) = Inr target"
    by (auto split: if_splits)
  from t assms have "target \<le> totalAmount (lockupInfo s)"
    by (auto simp: storage_inv_def lockup_inv_def dest: vestedAmount_le_total)
  with assms s' show ?thesis
    by (simp add: storage_inv_def lockup_inv_def)
next
  case (revoked effs)
  from revoke_Inr [OF revoked(2)] assms show ?thesis
    by (auto simp: storage_inv_def lockup_inv_def)
qed

lemma storage_invM_execM:
  assumes "storage_invM s"
  shows "storage_invM (execM s e c)"
proof (cases rule: execM_cases [where s = s and e = e and c = c])
  case reverted
  with assms show ?thesis by simp
next
  case (created b a cd vd rv effs)
  from createLockupM_Inr [OF created(2)] assms show ?thesis
    by (simp add: storage_invM_def lockup_inv_def)
next
  case (released effs)
  let ?l = "lockups s (msg_sender e)"
  from releaseM_Inr [OF released(2)] obtain target
    where s': "execM s e c = s\<lparr>lockups := (lockups s)(msg_sender e := ?l\<lparr>releasedAmount := target\<rparr>)\<rparr>"
      and t: "target = totalAmount ?l \<or> vestedAmountM ?l (block_timestamp e) = Inr target"
    by (auto split: if_splits)
  from assms have l: "lockup_inv ?l" by (simp add: storage_invM_def)
  with t have "target \<le> totalAmount ?l"
    by (auto simp: lockup_inv_def dest: vestedAmountM_le_total)
  with assms s' l show ?thesis
    by (simp add: storage_invM_def lockup_inv_def)
next
  case (revoked b effs)
  from assms have l: "lockup_inv (lockups s b)" by (simp add: storage_invM_def)
  from revokeM_Inr [OF revoked(2)] assms l show ?thesis
    by (auto simp: storage_invM_def lockup_inv_def split: if_splits)
qed

lemma reachable_storage_inv: "reachable s \<Longrightarrow> storage_inv s"
proof (induction rule: reachable.induct)
  case (deployed deployer this)
  show ?case by (simp add: constructor_def storage_inv_def lockup_inv_def)
next
  case (called s e c)
  then show ?case by (simp add: storage_inv_exec)
qed

lemma reachableM_storage_invM: "reachableM s \<Longrightarrow> storage_invM s"
proof (induction rule: reachableM.induct)
  case (deployedM deployer this)
  show ?case by (simp add: constructorM_def storage_invM_def lockup_inv_def)
next
  case (calledM s e c)
  then show ?case by (simp add: storage_invM_execM)
qed

lemma released_mono_exec:
  assumes "storage_inv s"
  shows "releasedAmount (lockupInfo s) \<le> releasedAmount (lockupInfo (exec s e c))"
proof (cases rule: exec_cases [where s = s and e = e and c = c])
  case reverted
  then show ?thesis by simp
next
  case (created b a cd vd rv effs)
  from createLockup_Inr [OF created(2)] assms have "releasedAmount (lockupInfo s) = 0"
    by (auto simp: storage_inv_def lockup_inv_def)
  then show ?thesis by simp
next
  case (released effs)
  from release_Inr [OF released(2)] show ?thesis by auto
next
  case (revoked effs)
  from revoke_Inr [OF revoked(2)] show ?thesis by auto
qed

lemma released_mono_execM:
  assumes "storage_invM s"
  shows "releasedAmount (lockups s k) \<le> releasedAmount (lockups (execM s e c) k)"
proof (cases rule: execM_cases [where s = s and e = e and c = c])
  case reverted
  then show ?thesis by simp
next
  case (created b a cd vd rv effs)
  from assms have "lockup_inv (lockups s b)" by (simp add: storage_invM_def)
  with createLockupM_Inr [OF created(2)] have "releasedAmount (lockups s b) = 0"
    by (auto simp: lockup_inv_def)
  with createLockupM_Inr [OF created(2)] show ?thesis by simp
next
  case (released effs)
  from releaseM_Inr [OF released(2)] show ?thesis by auto
next
  case (revoked b effs)
  from revokeM_Inr [OF revoked(2)] show ?thesis by auto
qed

section \<open>The two example storages\<close>

lemma example_storage_eq:
  "example_storage =
     \<lparr>owner = 1, address_this = 2,
      lockupInfo = \<lparr>totalAmount = 1000, releasedAmount = 0, startTime = 1700000000,
        cliffDuration = 100, vestingDuration = 1000, revocable = True, revoked = False,
        vestedAtRevoke = 0\<rparr>,
      beneficiary = 3\<rparr>"
  by (simp add: example_storage_def exec_def run_def createLockup_def constructor_def
      plain_env_def MAX_VESTING_DURATION_def checked_sub_def)

lemma example_storageM_eq:
  "example_storageM =
     \<lparr>ownerM = 1, address_thisM = 2,
      lockups = (\<lambda>k. \<lparr>totalAmount = 0, releasedAmount = 0, startTime = 0, cliffDuration = 0,
          vestingDuration = 0, revocable = False, revoked = False, vestedAtRevoke = 0\<rparr>)
        (3 := \<lparr>totalAmount = 1000, releasedAmount = 0, startTime = 1700000000,
          cliffDuration = 100, vestingDuration = 1000, revocable = True, revoked = False,
          vestedAtRevoke = 0\<rparr>)\<rparr>"
  by (simp add: example_storageM_def execM_def runM_def createLockupM_def constructorM_def
      plain_env_def MAX_VESTING_DURATION_def)

lemma reachable_example_storage: "reachable example_storage"
  unfolding example_storage_def by (intro called deployed)

lemma reachableM_example_storageM: "reachableM example_storageM"
  unfolding example_storageM_def by (intro calledM deployedM)

lemmas eval_defs =
  exec_def run_def createLockup_def release_def revoke_def releasableAmount_def
  vestedAmount_def getVestingProgress_def
  execM_def runM_def createLockupM_def releaseM_def revokeM_def releasableAmountM_def
  vestedAmountM_def getVestingProgressM_def
  plain_env_def MAX_VESTING_DURATION_def
  checked_add_def checked_sub_def checked_mul_def checked_div_def mulDiv_def

section \<open>The released amount\<close>

text \<open>
  C3. In every storage reachable from a fresh deployment by calls of \<open>createLockup\<close>,
  \<open>release\<close> and \<open>revoke\<close> (by any caller, at any time, with any answers of the token,
  failing or not), every record has \<open>releasedAmount \<le> totalAmount\<close>, and no call
  decreases the \<open>releasedAmount\<close> of any record. Both shapes.
\<close>

theorem releasedAmount_bounded_monotone:
  "(reachable s \<longrightarrow>
      releasedAmount (lockupInfo s) \<le> totalAmount (lockupInfo s) \<and>
      (\<forall>e c. releasedAmount (lockupInfo s) \<le> releasedAmount (lockupInfo (exec s e c)))) \<and>
   (reachableM m \<longrightarrow>
      (\<forall>k. releasedAmount (lockups m k) \<le> totalAmount (lockups m k) \<and>
        (\<forall>e c. releasedAmount (lockups m k) \<le> releasedAmount (lockups (execM m e c) k))))"
proof (intro conjI impI allI)
  assume "reachable s"
  then have i: "storage_inv s" by (rule reachable_storage_inv)
  then show "releasedAmount (lockupInfo s) \<le> totalAmount (lockupInfo s)"
    by (simp add: storage_inv_def lockup_inv_def)
  show "releasedAmount (lockupInfo s) \<le> releasedAmount (lockupInfo (exec s e c))" for e c
    using i by (rule released_mono_exec)
next
  fix k
  assume "reachableM m"
  then have i: "storage_invM m" by (rule reachableM_storage_invM)
  then show "releasedAmount (lockups m k) \<le> totalAmount (lockups m k)"
    by (simp add: storage_invM_def lockup_inv_def)
  show "releasedAmount (lockups m k) \<le> releasedAmount (lockups (execM m e c) k)" for e c
    using i by (rule released_mono_execM)
qed

theorem releasedAmount_bounded_monotone_witness:
  "reachable example_storage \<and>
   releasedAmount (lockupInfo example_storage) \<le> totalAmount (lockupInfo example_storage) \<and>
   releasedAmount (lockupInfo (exec example_storage (plain_env 3 1700000500 0) Release)) = 500 \<and>
   releasedAmount (lockupInfo example_storage)
     \<le> releasedAmount (lockupInfo (exec example_storage (plain_env 3 1700000500 0) Release)) \<and>
   reachableM example_storageM \<and>
   releasedAmount (lockups example_storageM 3) \<le> totalAmount (lockups example_storageM 3) \<and>
   releasedAmount (lockups (execM example_storageM (plain_env 3 1700000500 0) ReleaseM) 3) = 500 \<and>
   releasedAmount (lockups example_storageM 3)
     \<le> releasedAmount (lockups (execM example_storageM (plain_env 3 1700000500 0) ReleaseM) 3)"
proof -
  have a: "releasedAmount (lockupInfo (exec example_storage (plain_env 3 1700000500 0) Release)) = 500"
    by (simp add: example_storage_eq eval_defs)
  have b: "releasedAmount (lockups (execM example_storageM (plain_env 3 1700000500 0) ReleaseM) 3) = 500"
    by (simp add: example_storageM_eq eval_defs)
  from releasedAmount_bounded_monotone [of example_storage example_storageM]
    reachable_example_storage reachableM_example_storageM a b
  show ?thesis by blast
qed

section \<open>Revocation freezes the vested amount\<close>

lemma vestedAtRevoke_kept:
  assumes "storage_inv s" and "c \<noteq> Revoke \<or> revoked (lockupInfo s)"
  shows "vestedAtRevoke (lockupInfo (exec s e c)) = vestedAtRevoke (lockupInfo s) \<and>
         (revoked (lockupInfo s) \<longrightarrow> revoked (lockupInfo (exec s e c)))"
proof (cases rule: exec_cases [where s = s and e = e and c = c])
  case reverted
  then show ?thesis by simp
next
  case (created b a cd vd rv effs)
  from createLockup_Inr [OF created(2)] assms(1)
  have z: "totalAmount (lockupInfo s) = 0" and v: "vestedAtRevoke (lockupInfo s) = 0"
    and n: "\<not> revoked (lockupInfo s)"
    by (auto simp: storage_inv_def lockup_inv_def)
  with createLockup_Inr [OF created(2)] show ?thesis by simp
next
  case (released effs)
  from release_Inr [OF released(2)] show ?thesis by auto
next
  case (revoked effs)
  from revoke_Inr [OF revoked(2)] revoked(1) assms(2) show ?thesis by auto
qed

lemma vestedAtRevoke_keptM:
  assumes "storage_invM s" and "c \<noteq> RevokeM k \<or> revoked (lockups s k)"
  shows "vestedAtRevoke (lockups (execM s e c) k) = vestedAtRevoke (lockups s k) \<and>
         (revoked (lockups s k) \<longrightarrow> revoked (lockups (execM s e c) k))"
proof (cases rule: execM_cases [where s = s and e = e and c = c])
  case reverted
  then show ?thesis by simp
next
  case (created b a cd vd rv effs)
  from assms(1) have "lockup_inv (lockups s b)" by (simp add: storage_invM_def)
  with createLockupM_Inr [OF created(2)]
  have "vestedAtRevoke (lockups s b) = 0" and "\<not> revoked (lockups s b)"
    by (auto simp: lockup_inv_def)
  with createLockupM_Inr [OF created(2)] show ?thesis by simp
next
  case (released effs)
  from releaseM_Inr [OF released(2)] show ?thesis by auto
next
  case (revoked b effs)
  from revokeM_Inr [OF revoked(2)] revoked(1) assms(2) show ?thesis by auto
qed

lemma vestedAmount_revoked:
  assumes "revoked l" and "totalAmount l \<noteq> 0"
  shows "vestedAmount l t = Inr (vestedAtRevoke l)"
  using assms by (simp add: vestedAmount_def)

lemma vestedAmountM_revoked:
  assumes "revoked l" and "totalAmount l \<noteq> 0"
  shows "vestedAmountM l t = Inr (vestedAtRevoke l)"
  using assms by (simp add: vestedAmountM_def)

text \<open>
  C5. A successful \<open>revoke\<close> stores in \<open>vestedAtRevoke\<close> the amount vested at that moment
  and sets \<open>revoked\<close>; from then on \<open>vestedAmount\<close> returns that snapshot at every time.
  In a reachable storage, no call other than \<open>revoke\<close> changes \<open>vestedAtRevoke\<close>, and once
  the record is revoked no call at all changes it or clears \<open>revoked\<close>. Both shapes.
\<close>

theorem revoked_vesting_frozen:
  "(\<forall>e s' effs. revoke s e = Inr (s', effs) \<longrightarrow>
      revoked (lockupInfo s') \<and>
      vestedAmount (lockupInfo s) (block_timestamp e) = Inr (vestedAtRevoke (lockupInfo s')) \<and>
      (\<forall>t'. vestedAmount (lockupInfo s') t' = Inr (vestedAtRevoke (lockupInfo s')))) \<and>
   (reachable s \<longrightarrow>
      (\<forall>e c. c \<noteq> Revoke \<longrightarrow>
         vestedAtRevoke (lockupInfo (exec s e c)) = vestedAtRevoke (lockupInfo s)) \<and>
      (revoked (lockupInfo s) \<longrightarrow>
         (\<forall>t'. vestedAmount (lockupInfo s) t' = Inr (vestedAtRevoke (lockupInfo s))) \<and>
         (\<forall>e c. revoked (lockupInfo (exec s e c)) \<and>
            vestedAtRevoke (lockupInfo (exec s e c)) = vestedAtRevoke (lockupInfo s)))) \<and>
   (\<forall>e k m' effs. revokeM m e k = Inr (m', effs) \<longrightarrow>
      revoked (lockups m' k) \<and>
      vestedAmountM (lockups m k) (block_timestamp e) = Inr (vestedAtRevoke (lockups m' k)) \<and>
      (\<forall>t'. vestedAmountM (lockups m' k) t' = Inr (vestedAtRevoke (lockups m' k)))) \<and>
   (reachableM m \<longrightarrow>
      (\<forall>e c k. c \<noteq> RevokeM k \<longrightarrow>
         vestedAtRevoke (lockups (execM m e c) k) = vestedAtRevoke (lockups m k)) \<and>
      (\<forall>k. revoked (lockups m k) \<longrightarrow>
         (\<forall>t'. vestedAmountM (lockups m k) t' = Inr (vestedAtRevoke (lockups m k))) \<and>
         (\<forall>e c. revoked (lockups (execM m e c) k) \<and>
            vestedAtRevoke (lockups (execM m e c) k) = vestedAtRevoke (lockups m k))))"
proof -
  have a: "revoked (lockupInfo s') \<and>
      vestedAmount (lockupInfo s) (block_timestamp e) = Inr (vestedAtRevoke (lockupInfo s')) \<and>
      (\<forall>t'. vestedAmount (lockupInfo s') t' = Inr (vestedAtRevoke (lockupInfo s')))"
    if "revoke s e = Inr (s', effs)" for e s' effs
    using revoke_Inr [OF that] by (auto simp: vestedAmount_def)
  have b: "(\<forall>e c. c \<noteq> Revoke \<longrightarrow>
         vestedAtRevoke (lockupInfo (exec s e c)) = vestedAtRevoke (lockupInfo s)) \<and>
      (revoked (lockupInfo s) \<longrightarrow>
         (\<forall>t'. vestedAmount (lockupInfo s) t' = Inr (vestedAtRevoke (lockupInfo s))) \<and>
         (\<forall>e c. revoked (lockupInfo (exec s e c)) \<and>
            vestedAtRevoke (lockupInfo (exec s e c)) = vestedAtRevoke (lockupInfo s)))"
    if "reachable s"
  proof -
    from that have i: "storage_inv s" by (rule reachable_storage_inv)
    then have n: "revoked (lockupInfo s) \<longrightarrow> totalAmount (lockupInfo s) \<noteq> 0"
      by (simp add: storage_inv_def lockup_inv_def)
    from vestedAtRevoke_kept [OF i] vestedAmount_revoked n show ?thesis
      by blast
  qed
  have c: "revoked (lockups m' k) \<and>
      vestedAmountM (lockups m k) (block_timestamp e) = Inr (vestedAtRevoke (lockups m' k)) \<and>
      (\<forall>t'. vestedAmountM (lockups m' k) t' = Inr (vestedAtRevoke (lockups m' k)))"
    if "revokeM m e k = Inr (m', effs)" for e k m' effs
    using revokeM_Inr [OF that] by (auto simp: vestedAmountM_def)
  have d: "(\<forall>e c k. c \<noteq> RevokeM k \<longrightarrow>
         vestedAtRevoke (lockups (execM m e c) k) = vestedAtRevoke (lockups m k)) \<and>
      (\<forall>k. revoked (lockups m k) \<longrightarrow>
         (\<forall>t'. vestedAmountM (lockups m k) t' = Inr (vestedAtRevoke (lockups m k))) \<and>
         (\<forall>e c. revoked (lockups (execM m e c) k) \<and>
            vestedAtRevoke (lockups (execM m e c) k) = vestedAtRevoke (lockups m k)))"
    if "reachableM m"
  proof -
    from that have i: "storage_invM m" by (rule reachableM_storage_invM)
    then have n: "revoked (lockups m k) \<longrightarrow> totalAmount (lockups m k) \<noteq> 0" for k
      by (simp add: storage_invM_def lockup_inv_def)
    from vestedAtRevoke_keptM [OF i] vestedAmountM_revoked n show ?thesis
      by blast
  qed
  from a b c d show ?thesis by blast
qed

lemma example_revoked_eq:
  "example_revoked =
     \<lparr>owner = 1, address_this = 2,
      lockupInfo = \<lparr>totalAmount = 1000, releasedAmount = 0, startTime = 1700000000,
        cliffDuration = 100, vestingDuration = 1000, revocable = True, revoked = True,
        vestedAtRevoke = 500\<rparr>,
      beneficiary = 3\<rparr>"
  by (simp add: example_revoked_def example_storage_eq eval_defs)

lemma example_revokedM_eq:
  "example_revokedM =
     \<lparr>ownerM = 1, address_thisM = 2,
      lockups = (\<lambda>k. \<lparr>totalAmount = 0, releasedAmount = 0, startTime = 0, cliffDuration = 0,
          vestingDuration = 0, revocable = False, revoked = False, vestedAtRevoke = 0\<rparr>)
        (3 := \<lparr>totalAmount = 1000, releasedAmount = 0, startTime = 1700000000,
          cliffDuration = 100, vestingDuration = 1000, revocable = True, revoked = True,
          vestedAtRevoke = 500\<rparr>)\<rparr>"
  by (simp add: example_revokedM_def example_storageM_eq eval_defs)

lemma reachable_example_revoked: "reachable example_revoked"
  unfolding example_revoked_def by (intro called reachable_example_storage)

lemma reachableM_example_revokedM: "reachableM example_revokedM"
  unfolding example_revokedM_def by (intro calledM reachableM_example_storageM)

theorem revoked_vesting_frozen_witness:
  "revoke example_storage (plain_env 1 1700000500 0) =
     Inr (example_revoked, [SafeTransfer 1 500, LockupRevoked 3 500]) \<and>
   vestedAmount (lockupInfo example_storage) 1700000500 = Inr 500 \<and>
   vestedAtRevoke (lockupInfo example_revoked) = 500 \<and>
   reachable example_revoked \<and> revoked (lockupInfo example_revoked) \<and> Release \<noteq> Revoke \<and>
   vestedAmount (lockupInfo example_revoked) 1700009999 = Inr 500 \<and>
   vestedAtRevoke (lockupInfo (exec example_revoked (plain_env 3 1700000600 0) Release)) = 500 \<and>
   revokeM example_storageM (plain_env 1 1700000500 0) 3 =
     Inr (example_revokedM, [SafeTransfer 1 500, LockupRevoked 3 500]) \<and>
   vestedAmountM (lockups example_storageM 3) 1700000500 = Inr 500 \<and>
   vestedAtRevoke (lockups example_revokedM 3) = 500 \<and>
   reachableM example_revokedM \<and> revoked (lockups example_revokedM 3) \<and> ReleaseM \<noteq> RevokeM 3 \<and>
   vestedAmountM (lockups example_revokedM 3) 1700009999 = Inr 500 \<and>
   vestedAtRevoke (lockups (execM example_revokedM (plain_env 3 1700000600 0) ReleaseM) 3) = 500"
proof -
  have r: "revoke example_storage (plain_env 1 1700000500 0) =
     Inr (example_revoked, [SafeTransfer 1 500, LockupRevoked 3 500])"
    by (simp add: example_revoked_eq example_storage_eq eval_defs)
  have rM: "revokeM example_storageM (plain_env 1 1700000500 0) 3 =
     Inr (example_revokedM, [SafeTransfer 1 500, LockupRevoked 3 500])"
    by (simp add: example_revokedM_eq example_storageM_eq eval_defs)
  have v: "vestedAtRevoke (lockupInfo example_revoked) = 500" "revoked (lockupInfo example_revoked)"
    "vestedAtRevoke (lockups example_revokedM 3) = 500" "revoked (lockups example_revokedM 3)"
    by (simp_all add: example_revoked_eq example_revokedM_eq)
  note snap = revoked_vesting_frozen [of example_storage example_storageM,
      THEN conjunct1, rule_format, OF r]
  note snapM = revoked_vesting_frozen [of example_storage example_storageM,
      THEN conjunct2, THEN conjunct2, THEN conjunct1, rule_format, OF rM]
  note kept = revoked_vesting_frozen [of example_revoked example_revokedM,
      THEN conjunct2, THEN conjunct1, rule_format, OF reachable_example_revoked]
  note keptM = revoked_vesting_frozen [of example_revoked example_revokedM,
      THEN conjunct2, THEN conjunct2, THEN conjunct2, rule_format, OF reachableM_example_revokedM]
  have a: "vestedAmount (lockupInfo example_storage) 1700000500 = Inr 500"
    using snap [THEN conjunct2, THEN conjunct1] v(1) by (simp add: plain_env_def)
  have b: "vestedAmount (lockupInfo example_revoked) 1700009999 = Inr 500"
    using kept [THEN conjunct2, rule_format, OF v(2), THEN conjunct1, rule_format, of 1700009999] v(1)
    by simp
  have c: "vestedAtRevoke (lockupInfo (exec example_revoked (plain_env 3 1700000600 0) Release)) = 500"
    using kept [THEN conjunct1, rule_format, of Release "plain_env 3 1700000600 0"] v(1) by simp
  have aM: "vestedAmountM (lockups example_storageM 3) 1700000500 = Inr 500"
    using snapM [THEN conjunct2, THEN conjunct1] v(3) by (simp add: plain_env_def)
  have bM: "vestedAmountM (lockups example_revokedM 3) 1700009999 = Inr 500"
    using keptM [THEN conjunct2, rule_format, OF v(4), THEN conjunct1, rule_format, of 1700009999] v(3)
    by simp
  have cM: "vestedAtRevoke (lockups (execM example_revokedM (plain_env 3 1700000600 0) ReleaseM) 3) = 500"
    using keptM [THEN conjunct1, rule_format, of ReleaseM 3 "plain_env 3 1700000600 0"] v(3) by simp
  from r rM v a b c aM bM cM reachable_example_revoked reachableM_example_revokedM
  show ?thesis by simp
qed

section \<open>Release at or after the end of the schedule\<close>

lemma add_back:
  fixes a b :: "'a::len word"
  assumes "a \<le> b"
  shows "checked_add a (b - a) = Inr b"
proof -
  from assms have "unat (b - a) = unat b - unat a" and "unat a \<le> unat b"
    by (simp_all add: unat_sub word_le_nat_alt)
  then have "unat a + unat (b - a) = unat b" by simp
  then have "unat a + unat (b - a) < 2 ^ LENGTH('a)"
    using unsigned_less [of b] by simp
  then show ?thesis by (simp add: checked_add_def)
qed

lemma word_less_facts:
  fixes a b :: "'a::len word"
  assumes "a < b"
  shows "a \<le> b" and "b \<noteq> 0" and "b - a \<noteq> 0"
  using assms by (auto simp: word_less_nat_alt word_le_nat_alt)

lemma releasableAmount_full:
  assumes "\<not> revoked l" and "time_fits l"
    and "unat (startTime l) + unat (vestingDuration l) \<le> unat now"
    and "releasedAmount l \<le> totalAmount l"
  shows "releasableAmount l now = Inr (totalAmount l - releasedAmount l)"
proof -
  from assms(2) have v: "unat (startTime l) + unat (vestingDuration l) < 2 ^ LENGTH(64)"
    by (simp add: time_fits_def)
  from vestedAmount_refines [OF assms(2), of now] obtain w where w: "vestedAmount l now = Inr w"
    by blast
  from assms(3) have "ucast (startTime l + vestingDuration l) \<le> now"
    by (simp add: word_le_nat_alt checked_add_fits(2) [OF v])
  with assms(1,4) w show ?thesis
    by (simp add: releasableAmount_def checked_add_fits(1) [OF v] checked_sub_def)
qed

lemma releasableAmountM_full:
  assumes "\<not> revoked l" and "time_fits l"
    and "unat (startTime l) + unat (vestingDuration l) \<le> unat now"
    and "releasedAmount l \<le> totalAmount l"
  shows "releasableAmountM l now = Inr (totalAmount l - releasedAmount l)"
proof -
  from assms(2) have v: "unat (startTime l) + unat (vestingDuration l) < 2 ^ LENGTH(256)"
    by (simp add: time_fits_def)
  from assms(3) vestedAmountM_refines [OF assms(2), of now]
  obtain w where w: "vestedAmountM l now = Inr w"
    by auto
  from assms(3) have "startTime l + vestingDuration l \<le> now"
    by (simp add: word_le_nat_alt checked_add_fits(2) [OF v])
  with assms(1,4) w show ?thesis
    by (simp add: releasableAmountM_def checked_add_fits(1) [OF v] checked_sub_def)
qed

text \<open>
  C2. For a record that is not revoked, at or after \<open>startTime + vestingDuration\<close> the
  releasable amount is \<open>totalAmount - releasedAmount\<close>, whatever was released before; a
  release by the beneficiary then succeeds when something is left and the token pays,
  and every successful release at such a time leaves \<open>releasedAmount = totalAmount\<close>.
  Both shapes. (The end of the cliff and of the schedule are representable, and the
  record satisfies \<open>releasedAmount \<le> totalAmount\<close>, as every stored record does.)
\<close>

theorem release_after_vesting_end:
  "(\<not> revoked l \<and> time_fits l \<and> releasedAmount l \<le> totalAmount l \<and>
    unat (startTime l) + unat (vestingDuration l) \<le> unat now \<longrightarrow>
      releasableAmount l now = Inr (totalAmount l - releasedAmount l)) \<and>
   (\<not> revoked (lockupInfo s) \<and> time_fits (lockupInfo s) \<and>
    releasedAmount (lockupInfo s) < totalAmount (lockupInfo s) \<and>
    unat (startTime (lockupInfo s)) + unat (vestingDuration (lockupInfo s))
      \<le> unat (block_timestamp e) \<and>
    msg_sender e = beneficiary s \<and> token_transfer_ok e \<longrightarrow>
      release s e =
        Inr (s\<lparr>lockupInfo := (lockupInfo s)\<lparr>releasedAmount := totalAmount (lockupInfo s)\<rparr>\<rparr>,
             [SafeTransfer (msg_sender e) (totalAmount (lockupInfo s) - releasedAmount (lockupInfo s)),
              TokensReleased (msg_sender e)
                (totalAmount (lockupInfo s) - releasedAmount (lockupInfo s))])) \<and>
   (\<forall>s' effs. release s e = Inr (s', effs) \<and> \<not> revoked (lockupInfo s) \<and>
      unat (startTime (lockupInfo s)) + unat (vestingDuration (lockupInfo s))
        \<le> unat (block_timestamp e) \<longrightarrow>
      releasedAmount (lockupInfo s') = totalAmount (lockupInfo s') \<and>
      totalAmount (lockupInfo s') = totalAmount (lockupInfo s)) \<and>
   (\<not> revoked r \<and> time_fits r \<and> releasedAmount r \<le> totalAmount r \<and>
    unat (startTime r) + unat (vestingDuration r) \<le> unat now \<longrightarrow>
      releasableAmountM r now = Inr (totalAmount r - releasedAmount r)) \<and>
   (\<not> revoked (lockups m (msg_sender e)) \<and> time_fits (lockups m (msg_sender e)) \<and>
    releasedAmount (lockups m (msg_sender e)) < totalAmount (lockups m (msg_sender e)) \<and>
    unat (startTime (lockups m (msg_sender e))) + unat (vestingDuration (lockups m (msg_sender e)))
      \<le> unat (block_timestamp e) \<and>
    token_transfer_ok e \<longrightarrow>
      releaseM m e =
        Inr (m\<lparr>lockups := (lockups m)(msg_sender e :=
                (lockups m (msg_sender e))
                  \<lparr>releasedAmount := totalAmount (lockups m (msg_sender e))\<rparr>)\<rparr>,
             [SafeTransfer (msg_sender e)
                (totalAmount (lockups m (msg_sender e)) - releasedAmount (lockups m (msg_sender e))),
              TokensReleased (msg_sender e)
                (totalAmount (lockups m (msg_sender e))
                   - releasedAmount (lockups m (msg_sender e)))])) \<and>
   (\<forall>m' effs. releaseM m e = Inr (m', effs) \<and> \<not> revoked (lockups m (msg_sender e)) \<and>
      unat (startTime (lockups m (msg_sender e))) + unat (vestingDuration (lockups m (msg_sender e)))
        \<le> unat (block_timestamp e) \<longrightarrow>
      releasedAmount (lockups m' (msg_sender e)) = totalAmount (lockups m' (msg_sender e)) \<and>
      totalAmount (lockups m' (msg_sender e)) = totalAmount (lockups m (msg_sender e)))"
proof (intro conjI impI allI; (elim conjE)?)
  show "releasableAmount l now = Inr (totalAmount l - releasedAmount l)"
    if "\<not> revoked l" "time_fits l" "releasedAmount l \<le> totalAmount l"
      "unat (startTime l) + unat (vestingDuration l) \<le> unat now"
    using that by (intro releasableAmount_full)
  show "releasableAmountM r now = Inr (totalAmount r - releasedAmount r)"
    if "\<not> revoked r" "time_fits r" "releasedAmount r \<le> totalAmount r"
      "unat (startTime r) + unat (vestingDuration r) \<le> unat now"
    using that by (intro releasableAmountM_full)
next
  let ?l = "lockupInfo s"
  assume a: "\<not> revoked ?l" "time_fits ?l" "releasedAmount ?l < totalAmount ?l"
    "unat (startTime ?l) + unat (vestingDuration ?l) \<le> unat (block_timestamp e)"
    "msg_sender e = beneficiary s" "token_transfer_ok e"
  from a(3) have le: "releasedAmount ?l \<le> totalAmount ?l" and nz: "totalAmount ?l \<noteq> 0"
    and ne: "totalAmount ?l - releasedAmount ?l \<noteq> 0"
    by (rule word_less_facts)+
  from a nz ne show "release s e =
        Inr (s\<lparr>lockupInfo := ?l\<lparr>releasedAmount := totalAmount ?l\<rparr>\<rparr>,
             [SafeTransfer (msg_sender e) (totalAmount ?l - releasedAmount ?l),
              TokensReleased (msg_sender e) (totalAmount ?l - releasedAmount ?l)])"
    by (simp add: release_def releasableAmount_full [OF a(1,2,4) le] add_back [OF le])
next
  fix s' effs
  assume "release s e = Inr (s', effs)" "\<not> revoked (lockupInfo s)"
    "unat (startTime (lockupInfo s)) + unat (vestingDuration (lockupInfo s))
        \<le> unat (block_timestamp e)"
  with release_Inr [of s e s' effs]
  show "releasedAmount (lockupInfo s') = totalAmount (lockupInfo s')"
    and "totalAmount (lockupInfo s') = totalAmount (lockupInfo s)"
    by auto
next
  let ?l = "lockups m (msg_sender e)"
  assume a: "\<not> revoked ?l" "time_fits ?l" "releasedAmount ?l < totalAmount ?l"
    "unat (startTime ?l) + unat (vestingDuration ?l) \<le> unat (block_timestamp e)"
    "token_transfer_ok e"
  from a(3) have le: "releasedAmount ?l \<le> totalAmount ?l" and nz: "totalAmount ?l \<noteq> 0"
    and ne: "totalAmount ?l - releasedAmount ?l \<noteq> 0"
    by (rule word_less_facts)+
  from a nz ne show "releaseM m e =
        Inr (m\<lparr>lockups := (lockups m)(msg_sender e := ?l\<lparr>releasedAmount := totalAmount ?l\<rparr>)\<rparr>,
             [SafeTransfer (msg_sender e) (totalAmount ?l - releasedAmount ?l),
              TokensReleased (msg_sender e) (totalAmount ?l - releasedAmount ?l)])"
    by (simp add: releaseM_def Let_def releasableAmountM_full [OF a(1,2,4) le] add_back [OF le])
next
  fix m' effs
  assume "releaseM m e = Inr (m', effs)" "\<not> revoked (lockups m (msg_sender e))"
    "unat (startTime (lockups m (msg_sender e))) + unat (vestingDuration (lockups m (msg_sender e)))
        \<le> unat (block_timestamp e)"
  with releaseM_Inr [of m e m' effs]
  show "releasedAmount (lockups m' (msg_sender e)) = totalAmount (lockups m' (msg_sender e))"
    and "totalAmount (lockups m' (msg_sender e)) = totalAmount (lockups m (msg_sender e))"
    by auto
qed

lemma example_released_eq:
  "example_released =
     \<lparr>owner = 1, address_this = 2,
      lockupInfo = \<lparr>totalAmount = 1000, releasedAmount = 333, startTime = 1700000000,
        cliffDuration = 100, vestingDuration = 1000, revocable = True, revoked = False,
        vestedAtRevoke = 0\<rparr>,
      beneficiary = 3\<rparr>"
  by (simp add: example_released_def example_storage_eq eval_defs)

lemma example_releasedM_eq:
  "example_releasedM =
     \<lparr>ownerM = 1, address_thisM = 2,
      lockups = (\<lambda>k. \<lparr>totalAmount = 0, releasedAmount = 0, startTime = 0, cliffDuration = 0,
          vestingDuration = 0, revocable = False, revoked = False, vestedAtRevoke = 0\<rparr>)
        (3 := \<lparr>totalAmount = 1000, releasedAmount = 333, startTime = 1700000000,
          cliffDuration = 100, vestingDuration = 1000, revocable = True, revoked = False,
          vestedAtRevoke = 0\<rparr>)\<rparr>"
  by (simp add: example_releasedM_def example_storageM_eq eval_defs)

theorem release_after_vesting_end_witness:
  "\<not> revoked (lockupInfo example_released) \<and> time_fits (lockupInfo example_released) \<and>
   releasedAmount (lockupInfo example_released) < totalAmount (lockupInfo example_released) \<and>
   unat (startTime (lockupInfo example_released)) + unat (vestingDuration (lockupInfo example_released))
     \<le> unat (block_timestamp (plain_env 3 1700001000 0)) \<and>
   msg_sender (plain_env 3 1700001000 0) = beneficiary example_released \<and>
   token_transfer_ok (plain_env 3 1700001000 0) \<and>
   releasableAmount (lockupInfo example_released) 1700001000 = Inr 667 \<and>
   release example_released (plain_env 3 1700001000 0) =
     Inr (example_released\<lparr>lockupInfo := (lockupInfo example_released)\<lparr>releasedAmount := 1000\<rparr>\<rparr>,
          [SafeTransfer 3 667, TokensReleased 3 667]) \<and>
   \<not> revoked (lockups example_releasedM 3) \<and> time_fits (lockups example_releasedM 3) \<and>
   releasedAmount (lockups example_releasedM 3) < totalAmount (lockups example_releasedM 3) \<and>
   unat (startTime (lockups example_releasedM 3)) + unat (vestingDuration (lockups example_releasedM 3))
     \<le> unat (block_timestamp (plain_env 3 1700001000 0)) \<and>
   releasableAmountM (lockups example_releasedM 3) 1700001000 = Inr 667 \<and>
   releaseM example_releasedM (plain_env 3 1700001000 0) =
     Inr (example_releasedM\<lparr>lockups := (lockups example_releasedM)(3 :=
            (lockups example_releasedM 3)\<lparr>releasedAmount := 1000\<rparr>)\<rparr>,
          [SafeTransfer 3 667, TokensReleased 3 667])"
proof -
  let ?e = "plain_env 3 1700001000 0"
  note T = release_after_vesting_end [where l = "lockupInfo example_released"
      and now = 1700001000 and s = example_released and e = ?e
      and r = "lockups example_releasedM 3" and m = example_releasedM]
  have h: "\<not> revoked (lockupInfo example_released)" "time_fits (lockupInfo example_released)"
    "releasedAmount (lockupInfo example_released) < totalAmount (lockupInfo example_released)"
    "unat (startTime (lockupInfo example_released)) + unat (vestingDuration (lockupInfo example_released))
     \<le> unat (block_timestamp ?e)"
    "msg_sender ?e = beneficiary example_released" "token_transfer_ok ?e"
    by (simp_all add: example_released_eq plain_env_def time_fits_def)
  have hM: "\<not> revoked (lockups example_releasedM 3)" "time_fits (lockups example_releasedM 3)"
    "releasedAmount (lockups example_releasedM 3) < totalAmount (lockups example_releasedM 3)"
    "unat (startTime (lockups example_releasedM 3)) + unat (vestingDuration (lockups example_releasedM 3))
     \<le> unat (block_timestamp ?e)"
    by (simp_all add: example_releasedM_eq plain_env_def time_fits_def)
  have v: "totalAmount (lockupInfo example_released) - releasedAmount (lockupInfo example_released) = 667"
    "totalAmount (lockupInfo example_released) = 1000"
    "totalAmount (lockups example_releasedM 3) - releasedAmount (lockups example_releasedM 3) = 667"
    "totalAmount (lockups example_releasedM 3) = 1000"
    "msg_sender ?e = 3" "block_timestamp ?e = 1700001000"
    by (simp_all add: example_released_eq example_releasedM_eq plain_env_def)
  from h(3) have le: "releasedAmount (lockupInfo example_released) \<le> totalAmount (lockupInfo example_released)"
    by simp
  from hM(3) have leM: "releasedAmount (lockups example_releasedM 3) \<le> totalAmount (lockups example_releasedM 3)"
    by simp
  have a: "releasableAmount (lockupInfo example_released) 1700001000 = Inr 667"
    using T [THEN conjunct1] h le v by simp
  have b: "release example_released ?e =
     Inr (example_released\<lparr>lockupInfo := (lockupInfo example_released)\<lparr>releasedAmount := 1000\<rparr>\<rparr>,
          [SafeTransfer 3 667, TokensReleased 3 667])"
    using T [THEN conjunct2, THEN conjunct1] h v by simp
  have c: "releasableAmountM (lockups example_releasedM 3) 1700001000 = Inr 667"
    using T [THEN conjunct2, THEN conjunct2, THEN conjunct2, THEN conjunct1] hM leM v by simp
  have d: "releaseM example_releasedM ?e =
     Inr (example_releasedM\<lparr>lockups := (lockups example_releasedM)(3 :=
            (lockups example_releasedM 3)\<lparr>releasedAmount := 1000\<rparr>)\<rparr>,
          [SafeTransfer 3 667, TokensReleased 3 667])"
    using T [THEN conjunct2, THEN conjunct2, THEN conjunct2, THEN conjunct2, THEN conjunct1]
      hM h(6) v
    by simp
  from h hM a b c d show ?thesis by simp
qed

section \<open>The vesting progress\<close>

lemma getVestingProgress_refines:
  assumes "time_fits r"
  shows "\<exists>p. getVestingProgress r now = Inr p \<and> unat p = spec_vestingProgress r (unat now)"
proof -
  let ?S = "unat (startTime r)" and ?C = "unat (cliffDuration r)"
  let ?V = "unat (vestingDuration r)" and ?N = "unat now"
  from assms have c: "?S + ?C < 2 ^ LENGTH(64)" and v: "?S + ?V < 2 ^ LENGTH(64)"
    by (simp_all add: time_fits_def)
  note ce = checked_add_fits [OF c] and ve = checked_add_fits [OF v]
  consider (none) "totalAmount r = 0"
    | (rev) "totalAmount r \<noteq> 0" "revoked r"
    | (cliff) "totalAmount r \<noteq> 0" "\<not> revoked r" "?N < ?S + ?C"
    | (full) "totalAmount r \<noteq> 0" "\<not> revoked r" "\<not> ?N < ?S + ?C" "?S + ?V \<le> ?N"
    | (grad) "totalAmount r \<noteq> 0" "\<not> revoked r" "\<not> ?N < ?S + ?C" "\<not> ?S + ?V \<le> ?N"
    by blast
  then show ?thesis
  proof cases
    case none
    then show ?thesis by (simp add: getVestingProgress_def spec_vestingProgress_def)
  next
    case rev
    then show ?thesis by (simp add: getVestingProgress_def spec_vestingProgress_def unat_eq_0)
  next
    case cliff
    then show ?thesis
      by (simp add: getVestingProgress_def spec_vestingProgress_def unat_eq_0 ce word_less_nat_alt)
  next
    case full
    then show ?thesis
      by (simp add: getVestingProgress_def spec_vestingProgress_def unat_eq_0 ce ve
          word_less_nat_alt word_le_nat_alt)
  next
    case grad
    then have sn: "?S \<le> ?N" and lt: "?N - ?S < ?V" by simp_all
    define elapsed where "elapsed = now - ucast (startTime r)"
    have sub: "checked_sub now (ucast (startTime r)) = Inr elapsed"
      and usub: "unat elapsed = ?N - ?S"
      unfolding elapsed_def
      using checked_sub_fits [of "ucast (startTime r) :: u256" now] sn by simp_all
    from lt have vne: "(ucast (vestingDuration r) :: u256) \<noteq> 0"
      by (metis unat_widen unat_eq_0 not_less_zero)
    have "?V < 2 ^ 64" using unsigned_less [of "vestingDuration r"] by simp
    with lt have "(?N - ?S) * 100 < 2 ^ 64 * 100" by simp
    also have "\<dots> < (2::nat) ^ 256" by simp
    finally have "unat elapsed * unat (100 :: u256) < 2 ^ LENGTH(256)"
      by (simp add: usub)
    note mul = checked_mul_fits [OF this]
    from grad show ?thesis
      by (simp add: getVestingProgress_def spec_vestingProgress_def unat_eq_0 ce ve sub mul vne
          checked_div_def unat_div usub word_less_nat_alt word_le_nat_alt)
  qed
qed

lemma getVestingProgressM_refines:
  assumes "time_fits r" and "vestingDuration r \<le> MAX_VESTING_DURATION"
  shows "\<exists>p. getVestingProgressM r now = Inr p \<and> unat p = spec_vestingProgress r (unat now)"
proof -
  let ?S = "unat (startTime r)" and ?C = "unat (cliffDuration r)"
  let ?V = "unat (vestingDuration r)" and ?N = "unat now"
  from assms have c: "?S + ?C < 2 ^ LENGTH(256)" and v: "?S + ?V < 2 ^ LENGTH(256)"
    by (simp_all add: time_fits_def)
  note ce = checked_add_fits [OF c] and ve = checked_add_fits [OF v]
  consider (none) "totalAmount r = 0"
    | (rev) "totalAmount r \<noteq> 0" "revoked r"
    | (cliff) "totalAmount r \<noteq> 0" "\<not> revoked r" "?N < ?S + ?C"
    | (full) "totalAmount r \<noteq> 0" "\<not> revoked r" "\<not> ?N < ?S + ?C" "?S + ?V \<le> ?N"
    | (grad) "totalAmount r \<noteq> 0" "\<not> revoked r" "\<not> ?N < ?S + ?C" "\<not> ?S + ?V \<le> ?N"
    by blast
  then show ?thesis
  proof cases
    case none
    then show ?thesis by (simp add: getVestingProgressM_def spec_vestingProgress_def)
  next
    case rev
    then show ?thesis by (simp add: getVestingProgressM_def spec_vestingProgress_def unat_eq_0)
  next
    case cliff
    then show ?thesis
      by (simp add: getVestingProgressM_def spec_vestingProgress_def unat_eq_0 ce word_less_nat_alt)
  next
    case full
    then show ?thesis
      by (simp add: getVestingProgressM_def spec_vestingProgress_def unat_eq_0 ce ve
          word_less_nat_alt word_le_nat_alt)
  next
    case grad
    then have sn: "?S \<le> ?N" and lt: "?N - ?S < ?V" by simp_all
    define elapsed where "elapsed = now - startTime r"
    have sub: "checked_sub now (startTime r) = Inr elapsed"
      and usub: "unat elapsed = ?N - ?S"
      unfolding elapsed_def
      using checked_sub_fits [of "startTime r" now] sn by simp_all
    from lt have vne: "vestingDuration r \<noteq> 0"
      by (metis unat_eq_0 not_less_zero)
    from assms(2) have "?V \<le> 315360000"
      by (simp add: word_le_nat_alt MAX_VESTING_DURATION_def)
    with lt have "(?N - ?S) * 100 < 315360000 * 100" by simp
    also have "\<dots> < (2::nat) ^ 256" by simp
    finally have "unat elapsed * unat (100 :: u256) < 2 ^ LENGTH(256)"
      by (simp add: usub)
    note mul = checked_mul_fits [OF this]
    from grad show ?thesis
      by (simp add: getVestingProgressM_def spec_vestingProgress_def unat_eq_0 ce ve sub mul vne
          checked_div_def unat_div usub word_less_nat_alt word_le_nat_alt)
  qed
qed

text \<open>
  C9. \<open>getVestingProgress\<close> returns \<open>0\<close> when there is no record, \<open>100\<close> when the record is
  revoked, \<open>0\<close> before the end of the cliff, \<open>100\<close> from the end of the schedule on, and
  \<open>floor((now - startTime) * 100 / vestingDuration)\<close> in between: \<open>spec_vestingProgress\<close>,
  which counts the time from \<open>startTime\<close> and not from the end of the cliff. Both shapes, for
  records whose cliff end and schedule end are representable; in the per-address shape
  the duration is at most \<open>MAX_VESTING_DURATION\<close>, as \<open>createLockup\<close> enforces.
\<close>

theorem getVestingProgress_correct:
  "(time_fits r \<longrightarrow>
      (\<exists>p. getVestingProgress r now = Inr p \<and> unat p = spec_vestingProgress r (unat now))) \<and>
   (time_fits m \<and> vestingDuration m \<le> MAX_VESTING_DURATION \<longrightarrow>
      (\<exists>p. getVestingProgressM m now = Inr p \<and> unat p = spec_vestingProgress m (unat now)))"
  using getVestingProgress_refines [of r now] getVestingProgressM_refines [of m now]
  by blast

theorem getVestingProgress_correct_witness:
  "time_fits (lockupInfo example_storage) \<and>
   spec_vestingProgress (lockupInfo example_storage) (unat (1700000100 :: u256)) = 10 \<and>
   getVestingProgress (lockupInfo example_storage) 1700000100 = Inr 10 \<and>
   getVestingProgress (lockupInfo example_storage) 1700000099 = Inr 0 \<and>
   time_fits (lockups example_storageM 3) \<and>
   vestingDuration (lockups example_storageM 3) \<le> MAX_VESTING_DURATION \<and>
   spec_vestingProgress (lockups example_storageM 3) (unat (1700000100 :: u256)) = 10 \<and>
   getVestingProgressM (lockups example_storageM 3) 1700000100 = Inr 10 \<and>
   getVestingProgressM (lockups example_storageM 3) 1700000099 = Inr 0"
proof -
  have h: "time_fits (lockupInfo example_storage)" "time_fits (lockups example_storageM 3)"
    "vestingDuration (lockups example_storageM 3) \<le> MAX_VESTING_DURATION"
    by (simp_all add: example_storage_eq example_storageM_eq time_fits_def MAX_VESTING_DURATION_def)
  have v: "spec_vestingProgress (lockupInfo example_storage) (unat (1700000100 :: u256)) = 10"
    "spec_vestingProgress (lockups example_storageM 3) (unat (1700000100 :: u256)) = 10"
    "spec_vestingProgress (lockupInfo example_storage) (unat (1700000099 :: u256)) = 0"
    "spec_vestingProgress (lockups example_storageM 3) (unat (1700000099 :: u256)) = 0"
    by (simp_all add: example_storage_eq example_storageM_eq spec_vestingProgress_def)
  have w: "p = word_of_nat n" if "unat p = n" for p :: u256 and n
    using that by auto
  from getVestingProgress_correct [of "lockupInfo example_storage" 1700000100 "lockups example_storageM 3"]
    getVestingProgress_correct [of "lockupInfo example_storage" 1700000099 "lockups example_storageM 3"]
    h v
  show ?thesis by (auto dest: w)
qed

section \<open>Records made by createLockup\<close>

lemma createLockup_time_fits:
  assumes "createLockup s e b amount cd vd rv = Inr (s', effs)"
    and "unat (block_timestamp e) + unat MAX_VESTING_DURATION < 2 ^ 64"
  shows "time_fits (lockupInfo s') \<and> unat (startTime (lockupInfo s')) = unat (block_timestamp e)"
proof -
  note c = createLockup_Inr [OF assms(1)]
  from assms(2) have "unat (block_timestamp e) < 2 ^ 64" by simp
  then have st: "unat (ucast (block_timestamp e) :: u64) = unat (block_timestamp e)"
    by (simp add: unsigned_ucast_eq take_bit_nat_eq_self)
  from c have "unat vd \<le> unat MAX_VESTING_DURATION" and "unat cd \<le> unat vd"
    by (simp_all add: word_le_nat_alt word_less_nat_alt)
  with assms(2) c st show ?thesis
    by (simp add: time_fits_def)
qed

lemma createLockupM_time_fits:
  assumes "createLockupM s e b amount cd vd rv = Inr (s', effs)"
    and "unat (block_timestamp e) + unat MAX_VESTING_DURATION < 2 ^ 256"
  shows "time_fits (lockups s' b) \<and> vestingDuration (lockups s' b) \<le> MAX_VESTING_DURATION"
proof -
  note c = createLockupM_Inr [OF assms(1)]
  from c have "unat vd \<le> unat MAX_VESTING_DURATION" and "unat cd \<le> unat vd"
    by (simp_all add: word_le_nat_alt)
  with assms(2) c show ?thesis
    by (simp add: time_fits_def)
qed

section \<open>Release before any lockup\<close>

text \<open>
  C10. In the single-lockup shape \<open>release\<close> compares the caller with the stored
  beneficiary first. While no lockup exists the stored beneficiary is the zero address,
  so a release by any caller other than the zero address fails with \<open>NotBeneficiary\<close>,
  not with \<open>NoLockupFound\<close>, and the storage stays as it was: so right after deployment,
  and in every reachable storage whose \<open>totalAmount\<close> is zero.
\<close>

theorem release_without_lockup:
  "(msg_sender e \<noteq> beneficiary s \<longrightarrow>
      release s e = Inl NotBeneficiary \<and> exec s e Release = s) \<and>
   (msg_sender e \<noteq> 0 \<longrightarrow>
      release (constructor deployer this) e = Inl NotBeneficiary \<and>
      exec (constructor deployer this) e Release = constructor deployer this) \<and>
   (reachable s \<and> totalAmount (lockupInfo s) = 0 \<and> msg_sender e \<noteq> 0 \<longrightarrow>
      release s e = Inl NotBeneficiary \<and> exec s e Release = s)"
proof -
  have a: "release s e = Inl NotBeneficiary \<and> exec s e Release = s"
    if "msg_sender e \<noteq> beneficiary s" for s
    using that by (simp add: release_def exec_def run_def)
  have b: "beneficiary (constructor deployer this) = 0"
    by (simp add: constructor_def)
  have c: "beneficiary s = 0" if "reachable s" "totalAmount (lockupInfo s) = 0"
    using reachable_storage_inv [OF that(1)] that(2) by (simp add: storage_inv_def)
  from a [of s] a [of "constructor deployer this"] b c show ?thesis
    by metis
qed

theorem release_without_lockup_witness:
  "msg_sender (plain_env 3 1700000000 0) \<noteq> beneficiary (constructor 1 2) \<and>
   msg_sender (plain_env 3 1700000000 0) \<noteq> 0 \<and>
   reachable (constructor 1 2) \<and> totalAmount (lockupInfo (constructor 1 2)) = 0 \<and>
   release (constructor 1 2) (plain_env 3 1700000000 0) = Inl NotBeneficiary \<and>
   exec (constructor 1 2) (plain_env 3 1700000000 0) Release = constructor 1 2"
proof -
  have h: "msg_sender (plain_env 3 1700000000 0) \<noteq> beneficiary (constructor 1 2)"
    "msg_sender (plain_env 3 1700000000 0) \<noteq> 0"
    "totalAmount (lockupInfo (constructor 1 2)) = 0"
    by (simp_all add: plain_env_def constructor_def)
  have r: "reachable (constructor 1 2)" by (rule deployed)
  from release_without_lockup [of "plain_env 3 1700000000 0" "constructor 1 2" 1 2] h r
  show ?thesis by simp
qed

section \<open>The product of the vesting formula\<close>

text \<open>
  C1. The single-lockup shape returns the value of the specification at every time
  (\<open>vestedAmount_refines\<close> above). The per-address shape multiplies in 256 bits: with the
  largest total amount, a schedule of ten years and one day elapsed, the specification
  asks for \<open>floor((2^256 - 1) * 86400 / 315360000)\<close>, the single-lockup shape returns it,
  and the per-address shape aborts with an arithmetic panic.
\<close>

theorem vestedAmountM_aborts_at_max_total:
  "spec_vestedAmount
     \<lparr>totalAmount = 115792089237316195423570985008687907853269984665640564039457584007913129639935,
      releasedAmount = 0, startTime = (1700000000 :: u256), cliffDuration = 0,
      vestingDuration = 315360000, revocable = False, revoked = False, vestedAtRevoke = 0\<rparr>
     1700086400
     = 31723860065018135732485201372243262425553420456339880558755502467921405380 \<and>
   vestedAmount
     \<lparr>totalAmount = 115792089237316195423570985008687907853269984665640564039457584007913129639935,
      releasedAmount = 0, startTime = 1700000000, cliffDuration = 0,
      vestingDuration = 315360000, revocable = False, revoked = False, vestedAtRevoke = 0\<rparr>
     1700086400
     = Inr 31723860065018135732485201372243262425553420456339880558755502467921405380 \<and>
   vestedAmountM
     \<lparr>totalAmount = 115792089237316195423570985008687907853269984665640564039457584007913129639935,
      releasedAmount = 0, startTime = 1700000000, cliffDuration = 0,
      vestingDuration = 315360000, revocable = False, revoked = False, vestedAtRevoke = 0\<rparr>
     1700086400
     = Inl (Panic ArithmeticOverflow)"
  by (simp add: spec_vestedAmount_def vestedAmount_def vestedAmountM_def checked_add_def
      checked_sub_def checked_mul_def checked_div_def mulDiv_def)

text \<open>
  C4. In the gradual phase the single-lockup shape returns
  \<open>floor(totalAmount * (now - startTime) / vestingDuration)\<close> whatever the size of the
  product, through \<open>Math.mulDiv\<close>. The per-address shape returns that value when the
  product is below \<open>2^256\<close> and aborts with an arithmetic panic when it is not.
\<close>

theorem gradual_phase_product:
  "(time_fits r \<and> totalAmount r \<noteq> 0 \<and> \<not> revoked r \<and>
    unat (startTime r) + unat (cliffDuration r) \<le> unat now \<and>
    unat now < unat (startTime r) + unat (vestingDuration r) \<longrightarrow>
      (\<exists>v. vestedAmount r now = Inr v \<and>
         unat v = unat (totalAmount r) * (unat now - unat (startTime r))
                    div unat (vestingDuration r))) \<and>
   (time_fits m \<and> totalAmount m \<noteq> 0 \<and> \<not> revoked m \<and>
    unat (startTime m) + unat (cliffDuration m) \<le> unat now \<and>
    unat now < unat (startTime m) + unat (vestingDuration m) \<longrightarrow>
      (if unat (totalAmount m) * (unat now - unat (startTime m)) < 2 ^ 256
       then \<exists>v. vestedAmountM m now = Inr v \<and>
         unat v = unat (totalAmount m) * (unat now - unat (startTime m))
                    div unat (vestingDuration m)
       else vestedAmountM m now = Inl (Panic ArithmeticOverflow)))"
proof (intro conjI impI; elim conjE)
  assume a: "time_fits r" "totalAmount r \<noteq> 0" "\<not> revoked r"
    "unat (startTime r) + unat (cliffDuration r) \<le> unat now"
    "unat now < unat (startTime r) + unat (vestingDuration r)"
  then have "spec_vestedAmount r (unat now)
      = unat (totalAmount r) * (unat now - unat (startTime r)) div unat (vestingDuration r)"
    by (simp add: spec_vestedAmount_def unat_eq_0)
  with vestedAmount_refines [OF a(1), of now]
  show "\<exists>v. vestedAmount r now = Inr v \<and>
         unat v = unat (totalAmount r) * (unat now - unat (startTime r))
                    div unat (vestingDuration r)"
    by simp
next
  assume a: "time_fits m" "totalAmount m \<noteq> 0" "\<not> revoked m"
    "unat (startTime m) + unat (cliffDuration m) \<le> unat now"
    "unat now < unat (startTime m) + unat (vestingDuration m)"
  then have s: "spec_vestedAmount m (unat now)
      = unat (totalAmount m) * (unat now - unat (startTime m)) div unat (vestingDuration m)"
    by (simp add: spec_vestedAmount_def unat_eq_0)
  show "if unat (totalAmount m) * (unat now - unat (startTime m)) < 2 ^ 256
       then \<exists>v. vestedAmountM m now = Inr v \<and>
         unat v = unat (totalAmount m) * (unat now - unat (startTime m))
                    div unat (vestingDuration m)
       else vestedAmountM m now = Inl (Panic ArithmeticOverflow)"
  proof (cases "unat (totalAmount m) * (unat now - unat (startTime m)) < 2 ^ 256")
    case True
    with vestedAmountM_refines [OF a(1), of now] s show ?thesis
      by simp
  next
    case False
    then have "2 ^ 256 \<le> unat (totalAmount m) * (unat now - unat (startTime m))"
      by simp
    from vestedAmountM_overflow [OF a(2,3,1,4,5) this] False show ?thesis
      by simp
  qed
qed

theorem gradual_phase_product_witness:
  "time_fits \<lparr>totalAmount = 57896044618658097711785492504343953926634992332820282019728792003956564819968,
      releasedAmount = 0, startTime = (1700000000 :: u64), cliffDuration = 0,
      vestingDuration = 1000, revocable = False, revoked = False, vestedAtRevoke = 0\<rparr> \<and>
   time_fits \<lparr>totalAmount = 57896044618658097711785492504343953926634992332820282019728792003956564819968,
      releasedAmount = 0, startTime = (1700000000 :: u256), cliffDuration = 0,
      vestingDuration = 1000, revocable = False, revoked = False, vestedAtRevoke = 0\<rparr> \<and>
   unat (1700000000 :: u256) + unat (0 :: u256) \<le> unat (1700000002 :: u256) \<and>
   unat (1700000002 :: u256) < unat (1700000000 :: u256) + unat (1000 :: u256) \<and>
   vestedAmount
     \<lparr>totalAmount = 57896044618658097711785492504343953926634992332820282019728792003956564819968,
      releasedAmount = 0, startTime = 1700000000, cliffDuration = 0,
      vestingDuration = 1000, revocable = False, revoked = False, vestedAtRevoke = 0\<rparr>
     1700000002
     = Inr 115792089237316195423570985008687907853269984665640564039457584007913129639 \<and>
   vestedAmountM
     \<lparr>totalAmount = 57896044618658097711785492504343953926634992332820282019728792003956564819968,
      releasedAmount = 0, startTime = 1700000000, cliffDuration = 0,
      vestingDuration = 1000, revocable = False, revoked = False, vestedAtRevoke = 0\<rparr>
     1700000002
     = Inl (Panic ArithmeticOverflow)"
proof -
  let ?r = "\<lparr>totalAmount = 57896044618658097711785492504343953926634992332820282019728792003956564819968,
      releasedAmount = 0, startTime = (1700000000 :: u64), cliffDuration = 0,
      vestingDuration = 1000, revocable = False, revoked = False, vestedAtRevoke = 0\<rparr>"
  let ?m = "\<lparr>totalAmount = 57896044618658097711785492504343953926634992332820282019728792003956564819968,
      releasedAmount = 0, startTime = (1700000000 :: u256), cliffDuration = 0,
      vestingDuration = 1000, revocable = False, revoked = False, vestedAtRevoke = 0\<rparr>"
  have h: "time_fits ?r" "time_fits ?m" by (simp_all add: time_fits_def)
  have v: "vestedAmount ?r 1700000002
     = Inr 115792089237316195423570985008687907853269984665640564039457584007913129639"
    by (simp add: vestedAmount_def checked_add_def checked_sub_def mulDiv_def)
  from gradual_phase_product [of ?r 1700000002 ?m, THEN conjunct2] h
  have "vestedAmountM ?m 1700000002 = Inl (Panic ArithmeticOverflow)"
    by simp
  with h v show ?thesis by simp
qed

section \<open>Revocation with nothing to refund\<close>

text \<open>
  C6, as the code has it. In the single-lockup shape a revoke by the owner of an
  existing, revocable, not yet revoked record whose refund is zero (the vested amount
  has reached the total) is rejected with \<open>NothingToRevoke\<close> and leaves the storage as it
  was; a revoke that succeeds has a refund above zero, sets \<open>revoked\<close>, stores the vested
  amount and asks the token to pay the refund to the owner. In the per-address shape
  the same call with a refund of zero succeeds: it sets \<open>revoked\<close>, stores
  \<open>vestedAtRevoke = totalAmount\<close>, asks for no transfer and emits the event with amount
  zero.
\<close>

theorem revoke_with_zero_refund:
  "(msg_sender e = owner s \<and> totalAmount (lockupInfo s) \<noteq> 0 \<and> \<not> revoked (lockupInfo s) \<and>
    revocable (lockupInfo s) \<and>
    vestedAmount (lockupInfo s) (block_timestamp e) = Inr v \<and> totalAmount (lockupInfo s) \<le> v \<longrightarrow>
      revoke s e = Inl NothingToRevoke \<and> exec s e Revoke = s) \<and>
   (\<forall>s' effs. revoke s e = Inr (s', effs) \<longrightarrow>
      (\<exists>vested. vestedAmount (lockupInfo s) (block_timestamp e) = Inr vested \<and>
         vested < totalAmount (lockupInfo s) \<and>
         s' = s\<lparr>lockupInfo := (lockupInfo s)\<lparr>revoked := True, vestedAtRevoke := vested\<rparr>\<rparr> \<and>
         effs = [SafeTransfer (owner s) (totalAmount (lockupInfo s) - vested),
                 LockupRevoked (beneficiary s) (totalAmount (lockupInfo s) - vested)])) \<and>
   (msg_sender e = ownerM m \<and> totalAmount (lockups m k) \<noteq> 0 \<and> \<not> revoked (lockups m k) \<and>
    revocable (lockups m k) \<and>
    vestedAmountM (lockups m k) (block_timestamp e) = Inr w \<and> totalAmount (lockups m k) \<le> w \<longrightarrow>
      revokeM m e k =
        Inr (m\<lparr>lockups := (lockups m)(k :=
               (lockups m k)\<lparr>revoked := True, vestedAtRevoke := totalAmount (lockups m k)\<rparr>)\<rparr>,
             [LockupRevoked k 0]))"
proof (intro conjI impI allI; (elim conjE)?)
  assume a: "msg_sender e = owner s" "totalAmount (lockupInfo s) \<noteq> 0" "\<not> revoked (lockupInfo s)"
    "revocable (lockupInfo s)" "vestedAmount (lockupInfo s) (block_timestamp e) = Inr v"
    "totalAmount (lockupInfo s) \<le> v"
  then have r: "revoke s e = Inl NothingToRevoke"
    by (auto simp: revoke_def Let_def checked_sub_def)
  then show "revoke s e = Inl NothingToRevoke" .
  from r show "exec s e Revoke = s" by (simp add: exec_def run_def)
next
  fix s' effs
  assume "revoke s e = Inr (s', effs)"
  from revoke_Inr [OF this]
  show "\<exists>vested. vestedAmount (lockupInfo s) (block_timestamp e) = Inr vested \<and>
         vested < totalAmount (lockupInfo s) \<and>
         s' = s\<lparr>lockupInfo := (lockupInfo s)\<lparr>revoked := True, vestedAtRevoke := vested\<rparr>\<rparr> \<and>
         effs = [SafeTransfer (owner s) (totalAmount (lockupInfo s) - vested),
                 LockupRevoked (beneficiary s) (totalAmount (lockupInfo s) - vested)]"
    by blast
next
  let ?l = "lockups m k"
  assume a: "msg_sender e = ownerM m" "totalAmount ?l \<noteq> 0" "\<not> revoked ?l"
    "revocable ?l" "vestedAmountM ?l (block_timestamp e) = Inr w" "totalAmount ?l \<le> w"
  from vestedAmountM_le_total [OF a(5)] a(3) have "w \<le> totalAmount ?l" by simp
  with a(6) have "w = totalAmount ?l" by simp
  with a show "revokeM m e k =
        Inr (m\<lparr>lockups := (lockups m)(k := ?l\<lparr>revoked := True, vestedAtRevoke := totalAmount ?l\<rparr>)\<rparr>,
             [LockupRevoked k 0])"
    by (simp add: revokeM_def Let_def checked_sub_def)
qed

theorem revoke_with_zero_refund_witness:
  "msg_sender (plain_env 1 1700001000 0) = owner example_storage \<and>
   totalAmount (lockupInfo example_storage) \<noteq> 0 \<and> \<not> revoked (lockupInfo example_storage) \<and>
   revocable (lockupInfo example_storage) \<and>
   vestedAmount (lockupInfo example_storage) (block_timestamp (plain_env 1 1700001000 0)) = Inr 1000 \<and>
   totalAmount (lockupInfo example_storage) \<le> 1000 \<and>
   revoke example_storage (plain_env 1 1700001000 0) = Inl NothingToRevoke \<and>
   exec example_storage (plain_env 1 1700001000 0) Revoke = example_storage \<and>
   revoke example_storage (plain_env 1 1700000500 0) =
     Inr (example_revoked, [SafeTransfer 1 500, LockupRevoked 3 500]) \<and>
   (500 :: u256) < totalAmount (lockupInfo example_storage) \<and>
   msg_sender (plain_env 1 1700001000 0) = ownerM example_storageM \<and>
   totalAmount (lockups example_storageM 3) \<noteq> 0 \<and> \<not> revoked (lockups example_storageM 3) \<and>
   revocable (lockups example_storageM 3) \<and>
   vestedAmountM (lockups example_storageM 3) (block_timestamp (plain_env 1 1700001000 0)) = Inr 1000 \<and>
   totalAmount (lockups example_storageM 3) \<le> 1000 \<and>
   revokeM example_storageM (plain_env 1 1700001000 0) 3 =
     Inr (example_storageM\<lparr>lockups := (lockups example_storageM)(3 :=
            (lockups example_storageM 3)\<lparr>revoked := True, vestedAtRevoke := 1000\<rparr>)\<rparr>,
          [LockupRevoked 3 0])"
proof -
  let ?e = "plain_env 1 1700001000 0"
  have h: "msg_sender ?e = owner example_storage"
    "totalAmount (lockupInfo example_storage) \<noteq> 0" "\<not> revoked (lockupInfo example_storage)"
    "revocable (lockupInfo example_storage)"
    "vestedAmount (lockupInfo example_storage) (block_timestamp ?e) = Inr 1000"
    "totalAmount (lockupInfo example_storage) \<le> 1000"
    "(500 :: u256) < totalAmount (lockupInfo example_storage)"
    by (simp_all add: example_storage_eq eval_defs)
  have hM: "msg_sender ?e = ownerM example_storageM"
    "totalAmount (lockups example_storageM 3) \<noteq> 0" "\<not> revoked (lockups example_storageM 3)"
    "revocable (lockups example_storageM 3)"
    "vestedAmountM (lockups example_storageM 3) (block_timestamp ?e) = Inr 1000"
    "totalAmount (lockups example_storageM 3) \<le> 1000"
    by (simp_all add: example_storageM_eq eval_defs)
  have t: "totalAmount (lockups example_storageM 3) = 1000"
    by (simp add: example_storageM_eq)
  have r: "revoke example_storage (plain_env 1 1700000500 0) =
     Inr (example_revoked, [SafeTransfer 1 500, LockupRevoked 3 500])"
    by (simp add: example_revoked_eq example_storage_eq eval_defs)
  note T = revoke_with_zero_refund [where s = example_storage and e = ?e and v = 1000
      and m = example_storageM and k = 3 and w = 1000]
  have a: "revoke example_storage ?e = Inl NothingToRevoke \<and> exec example_storage ?e Revoke = example_storage"
    using T [THEN conjunct1] h by simp
  have b: "revokeM example_storageM ?e 3 =
     Inr (example_storageM\<lparr>lockups := (lockups example_storageM)(3 :=
            (lockups example_storageM 3)\<lparr>revoked := True, vestedAtRevoke := 1000\<rparr>)\<rparr>,
          [LockupRevoked 3 0])"
    using T [THEN conjunct2, THEN conjunct2] hM t by simp
  from h hM a b r show ?thesis by simp
qed

text \<open>
  The claim fails in the per-address shape: after the end of the schedule the owner
  revokes the example lockup, the refund is zero, and the call succeeds.
\<close>

theorem revokeM_zero_refund_succeeds:
  "totalAmount (lockups example_storageM 3) = 1000 \<and>
   revocable (lockups example_storageM 3) \<and> \<not> revoked (lockups example_storageM 3) \<and>
   vestedAmountM (lockups example_storageM 3) 1700001000 = Inr 1000 \<and>
   revokeM example_storageM (plain_env 1 1700001000 0) 3 \<noteq> Inl NothingToRevoke \<and>
   revoked (lockups (execM example_storageM (plain_env 1 1700001000 0) (RevokeM 3)) 3) \<and>
   vestedAtRevoke (lockups (execM example_storageM (plain_env 1 1700001000 0) (RevokeM 3)) 3) = 1000"
  by (simp add: example_storageM_eq eval_defs)

section \<open>A cliff that is not shorter than the schedule\<close>

text \<open>
  C7, as the code has it. In the single-lockup shape every \<open>createLockup\<close> with
  \<open>cliffDuration \<ge> vestingDuration\<close> fails and leaves the storage as it was, so no record
  is stored and no transfer is asked for; the error is \<open>InvalidDuration\<close> when the checks
  placed before it pass (the caller is the owner, no lockup exists, the amount is not
  zero), and no reachable storage holds a record whose cliff equals its schedule. In the
  per-address shape this holds for \<open>cliffDuration > vestingDuration\<close> only: a call with
  \<open>cliffDuration = vestingDuration\<close> that passes the other checks stores the record.
\<close>

theorem createLockup_cliff_against_vesting:
  "(vd \<le> cd \<longrightarrow>
      (\<exists>err. createLockup s e b a cd vd rv = Inl err) \<and>
      exec s e (CreateLockup b a cd vd rv) = s \<and>
      (msg_sender e = owner s \<and> beneficiary s = 0 \<and> a \<noteq> 0 \<longrightarrow>
         createLockup s e b a cd vd rv = Inl InvalidDuration)) \<and>
   (reachable s \<and> totalAmount (lockupInfo s) \<noteq> 0 \<longrightarrow>
      cliffDuration (lockupInfo s) < vestingDuration (lockupInfo s)) \<and>
   (vdM < cdM \<longrightarrow>
      (\<exists>err. createLockupM m e b a cdM vdM rv = Inl err) \<and>
      execM m e (CreateLockupM b a cdM vdM rv) = m \<and>
      (msg_sender e = ownerM m \<and> b \<noteq> 0 \<and> b \<noteq> address_thisM m \<and> a \<noteq> 0 \<longrightarrow>
         createLockupM m e b a cdM vdM rv = Inl InvalidDuration)) \<and>
   (msg_sender e = ownerM m \<and> b \<noteq> 0 \<and> b \<noteq> address_thisM m \<and> a \<noteq> 0 \<and> vdM \<noteq> 0 \<and>
    vdM \<le> MAX_VESTING_DURATION \<and> totalAmount (lockups m b) = 0 \<and> token_transfer_ok e \<longrightarrow>
      createLockupM m e b a vdM vdM rv =
        Inr (m\<lparr>lockups := (lockups m)(b :=
               \<lparr>totalAmount = a, releasedAmount = 0, startTime = block_timestamp e,
                cliffDuration = vdM, vestingDuration = vdM, revocable = rv,
                revoked = False, vestedAtRevoke = 0\<rparr>)\<rparr>,
             [SafeTransferFrom (msg_sender e) (address_thisM m) a,
              TokensLocked b a (block_timestamp e) vdM vdM rv]))"
proof (intro conjI impI; (elim conjE)?)
  assume le: "vd \<le> cd"
  then show x: "\<exists>err. createLockup s e b a cd vd rv = Inl err"
    by (simp add: createLockup_def)
  then show "exec s e (CreateLockup b a cd vd rv) = s"
    by (auto simp: exec_def run_def)
  show "createLockup s e b a cd vd rv = Inl InvalidDuration"
    if "msg_sender e = owner s" "beneficiary s = 0" "a \<noteq> 0"
    using that le by (simp add: createLockup_def)
next
  assume "reachable s" "totalAmount (lockupInfo s) \<noteq> 0"
  with reachable_storage_inv [of s]
  show "cliffDuration (lockupInfo s) < vestingDuration (lockupInfo s)"
    by (simp add: storage_inv_def)
next
  assume lt: "vdM < cdM"
  then show x: "\<exists>err. createLockupM m e b a cdM vdM rv = Inl err"
    by (simp add: createLockupM_def)
  then show "execM m e (CreateLockupM b a cdM vdM rv) = m"
    by (auto simp: execM_def runM_def)
  show "createLockupM m e b a cdM vdM rv = Inl InvalidDuration"
    if "msg_sender e = ownerM m" "b \<noteq> 0" "b \<noteq> address_thisM m" "a \<noteq> 0"
    using that lt by (simp add: createLockupM_def)
next
  assume "msg_sender e = ownerM m" "b \<noteq> 0" "b \<noteq> address_thisM m" "a \<noteq> 0" "vdM \<noteq> 0"
    "vdM \<le> MAX_VESTING_DURATION" "totalAmount (lockups m b) = 0" "token_transfer_ok e"
  then show "createLockupM m e b a vdM vdM rv =
        Inr (m\<lparr>lockups := (lockups m)(b :=
               \<lparr>totalAmount = a, releasedAmount = 0, startTime = block_timestamp e,
                cliffDuration = vdM, vestingDuration = vdM, revocable = rv,
                revoked = False, vestedAtRevoke = 0\<rparr>)\<rparr>,
             [SafeTransferFrom (msg_sender e) (address_thisM m) a,
              TokensLocked b a (block_timestamp e) vdM vdM rv])"
    by (simp add: createLockupM_def)
qed

theorem createLockup_cliff_against_vesting_witness:
  "(500 :: u64) \<le> 500 \<and>
   msg_sender (plain_env 1 1700000000 1000) = owner (constructor 1 2) \<and>
   beneficiary (constructor 1 2) = 0 \<and> (1000 :: u256) \<noteq> 0 \<and>
   createLockup (constructor 1 2) (plain_env 1 1700000000 1000) 3 1000 500 500 True
     = Inl InvalidDuration \<and>
   exec (constructor 1 2) (plain_env 1 1700000000 1000) (CreateLockup 3 1000 500 500 True)
     = constructor 1 2 \<and>
   reachable example_storage \<and> totalAmount (lockupInfo example_storage) \<noteq> 0 \<and>
   cliffDuration (lockupInfo example_storage) < vestingDuration (lockupInfo example_storage) \<and>
   (500 :: u256) < 501 \<and>
   msg_sender (plain_env 1 1700000000 1000) = ownerM (constructorM 1 2) \<and>
   (3 :: address) \<noteq> 0 \<and> 3 \<noteq> address_thisM (constructorM 1 2) \<and>
   createLockupM (constructorM 1 2) (plain_env 1 1700000000 1000) 3 1000 501 500 True
     = Inl InvalidDuration \<and>
   execM (constructorM 1 2) (plain_env 1 1700000000 1000) (CreateLockupM 3 1000 501 500 True)
     = constructorM 1 2 \<and>
   (500 :: u256) \<noteq> 0 \<and> (500 :: u256) \<le> MAX_VESTING_DURATION \<and>
   totalAmount (lockups (constructorM 1 2) 3) = 0 \<and>
   token_transfer_ok (plain_env 1 1700000000 1000) \<and>
   createLockupM (constructorM 1 2) (plain_env 1 1700000000 1000) 3 1000 500 500 True =
     Inr ((constructorM 1 2)\<lparr>lockups := (lockups (constructorM 1 2))(3 :=
            \<lparr>totalAmount = 1000, releasedAmount = 0, startTime = 1700000000,
             cliffDuration = 500, vestingDuration = 500, revocable = True,
             revoked = False, vestedAtRevoke = 0\<rparr>)\<rparr>,
          [SafeTransferFrom 1 2 1000, TokensLocked 3 1000 1700000000 500 500 True])"
proof -
  let ?e = "plain_env 1 1700000000 1000"
  have h: "msg_sender ?e = owner (constructor 1 2)" "beneficiary (constructor 1 2) = 0"
    "msg_sender ?e = ownerM (constructorM 1 2)" "3 \<noteq> address_thisM (constructorM 1 2)"
    "(500 :: u256) \<le> MAX_VESTING_DURATION" "totalAmount (lockups (constructorM 1 2) 3) = 0"
    "token_transfer_ok ?e" "totalAmount (lockupInfo example_storage) \<noteq> 0"
    "msg_sender ?e = 1" "block_timestamp ?e = 1700000000" "address_thisM (constructorM 1 2) = 2"
    by (simp_all add: plain_env_def constructor_def constructorM_def MAX_VESTING_DURATION_def
        example_storage_eq)
  note A = createLockup_cliff_against_vesting [where s = "constructor 1 2" and e = ?e and b = 3
      and a = 1000 and cd = 500 and vd = 500 and rv = True and m = "constructorM 1 2"
      and cdM = 501 and vdM = 500]
  note B = createLockup_cliff_against_vesting [where s = example_storage and e = ?e and b = 3
      and a = 1000 and cd = 500 and vd = 500 and rv = True and m = "constructorM 1 2"
      and cdM = 501 and vdM = 500]
  have a: "createLockup (constructor 1 2) ?e 3 1000 500 500 True = Inl InvalidDuration"
    "exec (constructor 1 2) ?e (CreateLockup 3 1000 500 500 True) = constructor 1 2"
    using A [THEN conjunct1] h(1,2) by simp_all
  have b: "cliffDuration (lockupInfo example_storage) < vestingDuration (lockupInfo example_storage)"
    using B [THEN conjunct2, THEN conjunct1] reachable_example_storage h(8) by simp
  have c: "createLockupM (constructorM 1 2) ?e 3 1000 501 500 True = Inl InvalidDuration"
    "execM (constructorM 1 2) ?e (CreateLockupM 3 1000 501 500 True) = constructorM 1 2"
    using A [THEN conjunct2, THEN conjunct2, THEN conjunct1] h(3,4) by simp_all
  have d: "createLockupM (constructorM 1 2) ?e 3 1000 500 500 True =
     Inr ((constructorM 1 2)\<lparr>lockups := (lockups (constructorM 1 2))(3 :=
            \<lparr>totalAmount = 1000, releasedAmount = 0, startTime = 1700000000,
             cliffDuration = 500, vestingDuration = 500, revocable = True,
             revoked = False, vestedAtRevoke = 0\<rparr>)\<rparr>,
          [SafeTransferFrom 1 2 1000, TokensLocked 3 1000 1700000000 500 500 True])"
    using A [THEN conjunct2, THEN conjunct2, THEN conjunct2] h by simp
  from h a b c d reachable_example_storage show ?thesis by simp
qed

text \<open>
  The claim fails on two inputs. In the per-address shape the owner creates a lockup whose
  cliff equals its schedule, and the record is stored. In the single-lockup shape a call
  with an amount of zero and such durations fails with \<open>InvalidAmount\<close>, which is checked
  first.
\<close>

theorem createLockup_equal_cliff_accepted:
  "totalAmount (lockups (execM (constructorM 1 2) (plain_env 1 1700000000 1000)
      (CreateLockupM 3 1000 500 500 True)) 3) = 1000 \<and>
   cliffDuration (lockups (execM (constructorM 1 2) (plain_env 1 1700000000 1000)
      (CreateLockupM 3 1000 500 500 True)) 3) = 500 \<and>
   vestingDuration (lockups (execM (constructorM 1 2) (plain_env 1 1700000000 1000)
      (CreateLockupM 3 1000 500 500 True)) 3) = 500 \<and>
   createLockup (constructor 1 2) (plain_env 1 1700000000 0) 3 0 500 500 True = Inl InvalidAmount"
  by (simp add: constructor_def constructorM_def eval_defs)

section \<open>Monotonicity in time\<close>

text \<open>
  C8. For a record that is not revoked and times \<open>t1 \<le> t2\<close>, the vested amount at \<open>t1\<close> is
  at most the vested amount at \<open>t2\<close>. In both shapes this holds of any two values the
  function returns; it returns at every time when the ends of the cliff and of the
  schedule are representable (and, in the per-address shape, when the product of the
  total amount and the vesting duration fits 256 bits).
\<close>

theorem vestedAmount_monotone:
  assumes "t1 \<le> t2"
  shows
    "(\<not> revoked r \<longrightarrow>
        (\<forall>v1 v2. vestedAmount r t1 = Inr v1 \<and> vestedAmount r t2 = Inr v2 \<longrightarrow> v1 \<le> v2) \<and>
        (time_fits r \<longrightarrow>
           (\<exists>v1 v2. vestedAmount r t1 = Inr v1 \<and> vestedAmount r t2 = Inr v2 \<and> v1 \<le> v2))) \<and>
     (\<not> revoked m \<longrightarrow>
        (\<forall>v1 v2. vestedAmountM m t1 = Inr v1 \<and> vestedAmountM m t2 = Inr v2 \<longrightarrow> v1 \<le> v2) \<and>
        (time_fits m \<and> unat (totalAmount m) * unat (vestingDuration m) < 2 ^ 256 \<longrightarrow>
           (\<exists>v1 v2. vestedAmountM m t1 = Inr v1 \<and> vestedAmountM m t2 = Inr v2 \<and> v1 \<le> v2)))"
proof -
  from assms have le: "unat t1 \<le> unat t2" by (simp add: word_le_nat_alt)
  have a: "v1 \<le> v2"
    if "\<not> revoked r" "vestedAmount r t1 = Inr v1" "vestedAmount r t2 = Inr v2" for v1 v2
    using spec_vestedAmount_mono [OF that(1) le] vestedAmount_sound [OF that(2)]
      vestedAmount_sound [OF that(3)]
    by (simp add: word_le_nat_alt)
  have b: "\<exists>v1 v2. vestedAmount r t1 = Inr v1 \<and> vestedAmount r t2 = Inr v2 \<and> v1 \<le> v2"
    if "\<not> revoked r" "time_fits r"
    using vestedAmount_refines [OF that(2), of t1] vestedAmount_refines [OF that(2), of t2]
      a [OF that(1)]
    by blast
  have c: "v1 \<le> v2"
    if "\<not> revoked m" "vestedAmountM m t1 = Inr v1" "vestedAmountM m t2 = Inr v2" for v1 v2
    using spec_vestedAmount_mono [OF that(1) le] vestedAmountM_sound [OF that(2)]
      vestedAmountM_sound [OF that(3)]
    by (simp add: word_le_nat_alt)
  have p: "unat (totalAmount m) * (unat t - unat (startTime m)) < 2 ^ 256"
    if "unat (totalAmount m) * unat (vestingDuration m) < 2 ^ 256"
      "unat t < unat (startTime m) + unat (vestingDuration m)" for t
  proof -
    have "unat (totalAmount m) * (unat t - unat (startTime m))
          \<le> unat (totalAmount m) * unat (vestingDuration m)"
      using that(2) by (intro mult_le_mono2) simp
    then show ?thesis using that(1) by (rule le_less_trans)
  qed
  have d: "\<exists>v1 v2. vestedAmountM m t1 = Inr v1 \<and> vestedAmountM m t2 = Inr v2 \<and> v1 \<le> v2"
    if "\<not> revoked m" "time_fits m" "unat (totalAmount m) * unat (vestingDuration m) < 2 ^ 256"
    using vestedAmountM_refines [OF that(2), of t1] vestedAmountM_refines [OF that(2), of t2]
      c [OF that(1)] p [OF that(3)]
    by blast
  from a b c d show ?thesis by blast
qed

theorem vestedAmount_monotone_witness:
  "(1700000100 :: u256) \<le> 1700000500 \<and>
   \<not> revoked (lockupInfo example_storage) \<and> time_fits (lockupInfo example_storage) \<and>
   vestedAmount (lockupInfo example_storage) 1700000100 = Inr 100 \<and>
   vestedAmount (lockupInfo example_storage) 1700000500 = Inr 500 \<and>
   \<not> revoked (lockups example_storageM 3) \<and> time_fits (lockups example_storageM 3) \<and>
   unat (totalAmount (lockups example_storageM 3)) * unat (vestingDuration (lockups example_storageM 3))
     < 2 ^ 256 \<and>
   vestedAmountM (lockups example_storageM 3) 1700000100 = Inr 100 \<and>
   vestedAmountM (lockups example_storageM 3) 1700000500 = Inr 500 \<and>
   (100 :: u256) \<le> 500"
proof -
  have h: "(1700000100 :: u256) \<le> 1700000500"
    "\<not> revoked (lockupInfo example_storage)" "time_fits (lockupInfo example_storage)"
    "\<not> revoked (lockups example_storageM 3)" "time_fits (lockups example_storageM 3)"
    "unat (totalAmount (lockups example_storageM 3)) * unat (vestingDuration (lockups example_storageM 3))
     < 2 ^ 256"
    by (simp_all add: example_storage_eq example_storageM_eq time_fits_def)
  have v: "vestedAmount (lockupInfo example_storage) 1700000100 = Inr 100"
    "vestedAmount (lockupInfo example_storage) 1700000500 = Inr 500"
    "vestedAmountM (lockups example_storageM 3) 1700000100 = Inr 100"
    "vestedAmountM (lockups example_storageM 3) 1700000500 = Inr 500"
    by (simp_all add: example_storage_eq example_storageM_eq eval_defs)
  note T = vestedAmount_monotone [OF h(1), of "lockupInfo example_storage" "lockups example_storageM 3"]
  from T [THEN conjunct1, rule_format, OF h(2), THEN conjunct1, rule_format, of 100 500] v
  have "(100 :: u256) \<le> 500" by simp
  with h v show ?thesis by simp
qed

end
